theory Spec2Isabelle
  imports Main "HOL-Library.Multiset" "HOL-Library.Char_ord" "HOL-Library.List_Lexorder"
begin

section \<open>The document store\<close>

text \<open>
  The blogroll keeps its data in four MongoDB collections. A collection is modelled as the
  list of its documents in natural (insertion) order: \<open>findOne\<close> and \<open>updateOne\<close> act on the
  first document that matches the filter, an insert appends. An \<open>ObjectId\<close> is a natural
  number, a JavaScript \<open>Date\<close> is its number of milliseconds since the epoch, \<open>null\<close> is
  \<open>None\<close>.
\<close>

type_synonym oid = nat
type_synonym date = int

text \<open>
  The driver gives every inserted document an \<open>_id\<close> that the collection does not hold yet.
\<close>

definition freshId :: "oid list \<Rightarrow> oid" where
  "freshId ids = Suc (fold max ids 0)"

text \<open>
  \<open>updateOne(filter, update)\<close> without upsert: the first document matching the filter is
  replaced by its update, every other document stays where and as it is.
\<close>

fun updateFirst :: "('a \<Rightarrow> bool) \<Rightarrow> ('a \<Rightarrow> 'a) \<Rightarrow> 'a list \<Rightarrow> 'a list" where
  "updateFirst P f [] = []"
| "updateFirst P f (x # xs) = (if P x then f x # xs else x # updateFirst P f xs)"

text \<open>\<open>updateMany(filter, update)\<close>: every matching document is replaced by its update.\<close>

definition updateMany :: "('a \<Rightarrow> bool) \<Rightarrow> ('a \<Rightarrow> 'a) \<Rightarrow> 'a list \<Rightarrow> 'a list" where
  "updateMany P f xs = map (\<lambda>x. if P x then f x else x) xs"

subsection \<open>Blogs (storage/blogs.js)\<close>

text \<open>The five values the code writes into a blog's \<open>status\<close> field.\<close>

datatype blog_status = Active | Error | Deleted | Pending | Inactive

record blog_doc =
  blog_id :: oid
  sourceId :: "oid option"
  title :: string
  description :: "string option"
  feedUrl :: string
  siteUrl :: "string option"
  feedType :: string
  category :: string
  tags :: "string list"
  photo :: "string option"
  author :: "string option"
  status :: blog_status
  lastFetchAt :: "date option"
  lastError :: "string option"
  itemCount :: nat
  pinned :: bool
  hidden :: bool
  blogNotes :: "string option"
  createdAt :: date
  updatedAt :: date
  source :: "string option"
  microsubFeedId :: "string option"
  microsubChannelId :: "string option"
  microsubChannelName :: "string option"
  skipItemFetch :: bool
  deletedAt :: "date option"

text \<open>
  The \<open>data\<close> argument of \<open>upsertBlog\<close>. The fields from \<open>d_source\<close> on are optional in the
  source (\<open>data.x !== undefined\<close>): \<open>None\<close> is \<open>undefined\<close>; for \<open>photo\<close> and \<open>lastFetchAt\<close>,
  which the Microsub adapter passes as a value or \<open>null\<close>, \<open>Some None\<close> is \<open>null\<close>.
\<close>

record blog_data =
  d_title :: string
  d_feedUrl :: string
  d_siteUrl :: string
  d_feedType :: string
  d_category :: string
  d_sourceId :: "oid option"
  d_source :: "string option"
  d_microsubFeedId :: "string option"
  d_microsubChannelId :: "string option"
  d_microsubChannelName :: "string option"
  d_skipItemFetch :: "bool option"
  d_photo :: "string option option"
  d_lastFetchAt :: "date option option"
  d_status :: "blog_status option"

text \<open>
  What \<open>upsertBlog\<close> returns: \<open>{upserted, modified}\<close>, and \<open>skippedDeleted: true\<close> on the
  soft-delete path only (the field is absent, hence falsy, otherwise).
\<close>

record upsert_result =
  upserted :: bool
  modified :: bool
  skippedDeleted :: bool

text \<open>The filter of the \<open>updateOne\<close> in \<open>upsertBlog\<close>: the feed URL, and the source id when
  the candidate has one.\<close>

definition blogFilter :: "blog_data \<Rightarrow> blog_doc \<Rightarrow> bool" where
  "blogFilter data b \<longleftrightarrow>
     feedUrl b = d_feedUrl data \<and>
     (case d_sourceId data of None \<Rightarrow> True | Some s \<Rightarrow> sourceId b = Some s)"

text \<open>The \<open>$set\<close> part: the base fields always, the optional fields when provided.\<close>

definition setFields :: "date \<Rightarrow> blog_data \<Rightarrow> blog_doc \<Rightarrow> blog_doc" where
  "setFields now data b =
     b\<lparr> title := d_title data,
        siteUrl := Some (d_siteUrl data),
        feedType := d_feedType data,
        category := d_category data,
        sourceId := d_sourceId data,
        updatedAt := now,
        source := (case d_source data of None \<Rightarrow> source b | Some s \<Rightarrow> Some s),
        microsubFeedId :=
          (case d_microsubFeedId data of None \<Rightarrow> microsubFeedId b | Some f \<Rightarrow> Some f),
        microsubChannelId :=
          (case d_microsubChannelId data of None \<Rightarrow> microsubChannelId b | Some c \<Rightarrow> Some c),
        microsubChannelName :=
          (case d_microsubChannelName data of None \<Rightarrow> microsubChannelName b | Some c \<Rightarrow> Some c),
        skipItemFetch := (case d_skipItemFetch data of None \<Rightarrow> skipItemFetch b | Some k \<Rightarrow> k),
        photo := (case d_photo data of None \<Rightarrow> photo b | Some p \<Rightarrow> p),
        lastFetchAt := (case d_lastFetchAt data of None \<Rightarrow> lastFetchAt b | Some t \<Rightarrow> t),
        status := (case d_status data of None \<Rightarrow> status b | Some s \<Rightarrow> s) \<rparr>"

text \<open>
  The document an upsert inserts when nothing matches: the filter's fields, the
  \<open>$setOnInsert\<close> defaults, and the \<open>$set\<close> fields on top.
\<close>

definition insertDefaults :: "oid \<Rightarrow> date \<Rightarrow> blog_data \<Rightarrow> blog_doc" where
  "insertDefaults newId now data =
     \<lparr> blog_id = newId, sourceId = d_sourceId data, title = [], description = None,
       feedUrl = d_feedUrl data, siteUrl = None, feedType = [], category = [], tags = [],
       photo = None, author = None, status = Active, lastFetchAt = None, lastError = None,
       itemCount = 0, pinned = False, hidden = False, blogNotes = None, createdAt = now,
       updatedAt = now, source = None, microsubFeedId = None, microsubChannelId = None,
       microsubChannelName = None, skipItemFetch = False, deletedAt = None \<rparr>"

definition upsertBlog :: "date \<Rightarrow> blog_doc list \<Rightarrow> blog_data \<Rightarrow> blog_doc list \<times> upsert_result" where
  "upsertBlog now blogs data =
     (case List.find (\<lambda>b. feedUrl b = d_feedUrl data \<and> status b = Deleted) blogs of
        Some deleted \<Rightarrow> (blogs, \<lparr>upserted = False, modified = False, skippedDeleted = True\<rparr>)
      | None \<Rightarrow>
          (case List.find (blogFilter data) blogs of
             Some b \<Rightarrow>
               (updateFirst (blogFilter data) (setFields now data) blogs,
                \<lparr>upserted = False, modified = (setFields now data b \<noteq> b), skippedDeleted = False\<rparr>)
           | None \<Rightarrow>
               (blogs @ [setFields now data (insertDefaults (freshId (map blog_id blogs)) now data)],
                \<lparr>upserted = True, modified = False, skippedDeleted = False\<rparr>)))"

text \<open>
  \<open>getBlogByFeedUrl\<close>: \<open>findOne({feedUrl, status: {$ne: "deleted"}})\<close>.
\<close>

definition getBlogByFeedUrl :: "blog_doc list \<Rightarrow> string \<Rightarrow> blog_doc option" where
  "getBlogByFeedUrl blogs url = List.find (\<lambda>b. feedUrl b = url \<and> status b \<noteq> Deleted) blogs"

text \<open>
  JavaScript's \<open>x || null\<close> on an optional string: an absent and an empty string are both
  falsy.
\<close>

definition orNull :: "string option \<Rightarrow> string option" where
  "orNull x = (case x of None \<Rightarrow> None | Some s \<Rightarrow> if s = [] then None else Some s)"

text \<open>The \<open>data\<close> argument of \<open>createBlog\<close>.\<close>

record new_blog =
  n_sourceId :: "oid option"
  n_title :: string
  n_description :: "string option"
  n_feedUrl :: string
  n_siteUrl :: "string option"
  n_feedType :: "string option"
  n_category :: string
  n_tags :: "string list"
  n_photo :: "string option"
  n_author :: "string option"
  n_pinned :: bool
  n_hidden :: bool
  n_blogNotes :: "string option"

text \<open>\<open>createBlog\<close> is a plain \<open>insertOne\<close>; it returns the collection and the new document.\<close>

definition createBlog :: "date \<Rightarrow> blog_doc list \<Rightarrow> new_blog \<Rightarrow> blog_doc list \<times> blog_doc" where
  "createBlog now blogs data =
     (let blog =
        \<lparr> blog_id = freshId (map blog_id blogs), sourceId = n_sourceId data,
          title = n_title data, description = orNull (n_description data),
          feedUrl = n_feedUrl data, siteUrl = orNull (n_siteUrl data),
          feedType = (case orNull (n_feedType data) of None \<Rightarrow> ''rss'' | Some t \<Rightarrow> t),
          category = n_category data, tags = n_tags data, photo = orNull (n_photo data),
          author = orNull (n_author data), status = Active, lastFetchAt = None,
          lastError = None, itemCount = 0, pinned = n_pinned data, hidden = n_hidden data,
          blogNotes = orNull (n_blogNotes data), createdAt = now, updatedAt = now,
          source = None, microsubFeedId = None, microsubChannelId = None,
          microsubChannelName = None, skipItemFetch = False, deletedAt = None \<rparr>
      in (blogs @ [blog], blog))"

text \<open>
  The blogs controller's \<open>create\<close> (POST /blogs), up to the insert: the feed URL is required,
  a non-deleted blog with the same feed URL refuses the request, otherwise \<open>createBlog\<close>
  runs. The form's comma-separated tags arrive here already split and trimmed. The initial
  item fetch that follows the insert is \<open>syncBlogItems\<close>, modelled below.
\<close>

record blog_form =
  f_feedUrl :: string
  f_title :: string
  f_siteUrl :: string
  f_category :: string
  f_tags :: "string list"
  f_blogNotes :: string
  f_pinned :: bool
  f_hidden :: bool

datatype create_outcome = FeedUrlRequired | AlreadyExists | Created blog_doc

definition create :: "date \<Rightarrow> blog_doc list \<Rightarrow> blog_form \<Rightarrow> blog_doc list \<times> create_outcome" where
  "create now blogs form =
     (if f_feedUrl form = [] then (blogs, FeedUrlRequired)
      else case getBlogByFeedUrl blogs (f_feedUrl form) of
        Some existing \<Rightarrow> (blogs, AlreadyExists)
      | None \<Rightarrow>
          (let (blogs', blog) = createBlog now blogs
             \<lparr> n_sourceId = None,
               n_title = (if f_title form = [] then f_feedUrl form else f_title form),
               n_description = None, n_feedUrl = f_feedUrl form,
               n_siteUrl = orNull (Some (f_siteUrl form)), n_feedType = None,
               n_category = f_category form, n_tags = f_tags form, n_photo = None,
               n_author = None, n_pinned = f_pinned form, n_hidden = f_hidden form,
               n_blogNotes = orNull (Some (f_blogNotes form)) \<rparr>
           in (blogs', Created blog)))"

text \<open>\<open>deleteBlog\<close>'s update of the blog document (the soft delete).\<close>

definition softDelete :: "date \<Rightarrow> blog_doc \<Rightarrow> blog_doc" where
  "softDelete now b = b\<lparr> status := Deleted, hidden := True, deletedAt := Some now, updatedAt := now \<rparr>"

text \<open>
  The \<open>status\<close> argument of \<open>updateBlogStatus\<close>: \<open>{success: true, itemCount, title?, photo?,
  siteUrl?}\<close> or \<open>{success: false, error}\<close>. An optional field that is absent or empty is
  falsy and leaves the blog's field alone.
\<close>

datatype fetch_status =
  FetchOk nat "string option" "string option" "string option"
| FetchFailed string

definition updateBlogStatus :: "date \<Rightarrow> oid \<Rightarrow> fetch_status \<Rightarrow> blog_doc list \<Rightarrow> blog_doc list" where
  "updateBlogStatus now bid st blogs =
     updateFirst (\<lambda>b. blog_id b = bid)
       (\<lambda>b. case st of
          FetchOk n t p s \<Rightarrow>
            b\<lparr> updatedAt := now, status := Active, lastFetchAt := Some now, lastError := None,
               itemCount := n,
               title := (case orNull t of None \<Rightarrow> title b | Some x \<Rightarrow> x),
               photo := (case orNull p of None \<Rightarrow> photo b | Some x \<Rightarrow> Some x),
               siteUrl := (case orNull s of None \<Rightarrow> siteUrl b | Some x \<Rightarrow> Some x) \<rparr>
        | FetchFailed e \<Rightarrow> b\<lparr> updatedAt := now, status := Error, lastError := Some e \<rparr>)
       blogs"

text \<open>
  \<open>getBlogs(application, {includeHidden: false, limit: 1000})\<close> as the scheduler calls it:
  the blogs that are neither deleted nor hidden, pinned ones first, then by title, at most
  1000 of them. (The order among blogs with equal keys is the store's choice; the model
  keeps their insertion order.)
\<close>

definition getBlogs :: "blog_doc list \<Rightarrow> blog_doc list" where
  "getBlogs blogs =
     take 1000 (sort_key (\<lambda>b. \<not> pinned b) (sort_key title
       (filter (\<lambda>b. status b \<noteq> Deleted \<and> \<not> hidden b) blogs)))"

subsection \<open>Items (storage/items.js)\<close>

text \<open>
  A timestamp field of a stored document is either the ISO-8601 string that
  \<open>toISOString()\<close> gives or a \<open>Date\<close> object; both are represented by the instant they denote,
  tagged with the type of the stored value.
\<close>

datatype stamp = IsoString date | DateObj date

fun instant :: "stamp \<Rightarrow> date" where
  "instant (IsoString t) = t"
| "instant (DateObj t) = t"

record item_doc =
  item_id :: oid
  blogId :: oid
  uid :: string
  i_url :: "string option"
  i_title :: string
  i_html :: "string option"
  i_plain :: "string option"
  i_summary :: string
  published :: stamp
  updated :: "stamp option"
  i_author :: "string option"
  i_photo :: "string list option"
  i_categories :: "string list"
  fetchedAt :: stamp

text \<open>The \<open>data\<close> argument of \<open>upsertItem\<close>: a normalized feed item and the owning blog.\<close>

record item_data =
  x_blogId :: oid
  x_uid :: string
  x_url :: "string option"
  x_title :: string
  x_html :: "string option"
  x_plain :: "string option"
  x_summary :: string
  x_published :: stamp
  x_updated :: "stamp option"
  x_author :: "string option"
  x_photo :: "string list option"
  x_categories :: "string list"

definition itemFilter :: "item_data \<Rightarrow> item_doc \<Rightarrow> bool" where
  "itemFilter data i \<longleftrightarrow> blogId i = x_blogId data \<and> uid i = x_uid data"

text \<open>The \<open>$set\<close> part of \<open>upsertItem\<close>; \<open>fetchedAt\<close> is \<open>new Date().toISOString()\<close>.\<close>

definition setItemFields :: "date \<Rightarrow> item_data \<Rightarrow> item_doc \<Rightarrow> item_doc" where
  "setItemFields now data i =
     i\<lparr> i_url := x_url data, i_title := x_title data, i_html := x_html data,
        i_plain := x_plain data, i_summary := x_summary data, published := x_published data,
        updated := x_updated data, i_author := x_author data, i_photo := x_photo data,
        i_categories := x_categories data, fetchedAt := IsoString now \<rparr>"

text \<open>The document an item upsert inserts: \<open>$setOnInsert\<close> gives \<open>blogId\<close> and \<open>uid\<close>.\<close>

definition newItem :: "oid \<Rightarrow> date \<Rightarrow> item_data \<Rightarrow> item_doc" where
  "newItem newId now data =
     setItemFields now data
       \<lparr> item_id = newId, blogId = x_blogId data, uid = x_uid data, i_url = None,
         i_title = [], i_html = None, i_plain = None, i_summary = [],
         published = x_published data, updated = None, i_author = None, i_photo = None,
         i_categories = [], fetchedAt = IsoString now \<rparr>"

record item_result =
  ir_upserted :: bool
  ir_modified :: bool

definition upsertItem :: "date \<Rightarrow> item_doc list \<Rightarrow> item_data \<Rightarrow> item_doc list \<times> item_result" where
  "upsertItem now items data =
     (case List.find (itemFilter data) items of
        Some i \<Rightarrow>
          (updateFirst (itemFilter data) (setItemFields now data) items,
           \<lparr>ir_upserted = False, ir_modified = (setItemFields now data i \<noteq> i)\<rparr>)
      | None \<Rightarrow>
          (items @ [newItem (freshId (map item_id items)) now data],
           \<lparr>ir_upserted = True, ir_modified = False\<rparr>))"

text \<open>
  \<open>deleteOldItems\<close>: \<open>deleteMany({published: {$lt: cutoff}})\<close> with
  \<open>cutoff = new Date(Date.now() - maxAgeDays * 24 * 60 * 60 * 1000)\<close>. The cutoff is a
  \<open>Date\<close>, and a MongoDB comparison operator matches a field only when its value has the
  type of the query value: a \<open>published\<close> stored as a string is never \<open>$lt\<close> a \<open>Date\<close>.
\<close>

definition cutoff :: "date \<Rightarrow> int \<Rightarrow> date" where
  "cutoff now maxAgeDays = now - maxAgeDays * 24 * 60 * 60 * 1000"

fun ltDate :: "stamp \<Rightarrow> date \<Rightarrow> bool" where
  "ltDate (DateObj t) c = (t < c)"
| "ltDate (IsoString t) c = False"

text \<open>It returns the remaining collection and \<open>deletedCount\<close>.\<close>

definition deleteOldItems :: "date \<Rightarrow> int \<Rightarrow> item_doc list \<Rightarrow> item_doc list \<times> nat" where
  "deleteOldItems now maxAgeDays items =
     (filter (\<lambda>i. \<not> ltDate (published i) (cutoff now maxAgeDays)) items,
      length (filter (\<lambda>i. ltDate (published i) (cutoff now maxAgeDays)) items))"

subsection \<open>Sources (storage/sources.js)\<close>

datatype source_type = OpmlUrl | OpmlFile | Manual | JsonFeed | Microsub | Feedland

text \<open>
  A source document. Its \<open>_id\<close> is \<open>source_id\<close>; the sync timestamps are ISO strings in the
  store and are kept as the instants they denote.
\<close>

record source_doc =
  source_id :: oid
  s_type :: source_type
  s_name :: string
  s_url :: "string option"
  opmlContent :: "string option"
  channelFilter :: "string option"
  categoryPrefix :: string
  feedlandInstance :: "string option"
  feedlandUsername :: "string option"
  feedlandCategory :: "string option"
  enabled :: bool
  syncInterval :: nat
  lastSyncAt :: "date option"
  lastSyncError :: "string option"
  s_createdAt :: date
  s_updatedAt :: date

text \<open>The \<open>status\<close> argument of \<open>updateSourceSyncStatus\<close>: \<open>None\<close> is success, \<open>Some e\<close>
  the error message.\<close>

definition updateSourceSyncStatus ::
  "date \<Rightarrow> oid \<Rightarrow> string option \<Rightarrow> source_doc list \<Rightarrow> source_doc list" where
  "updateSourceSyncStatus now sid st sources =
     updateFirst (\<lambda>s. source_id s = sid)
       (\<lambda>s. case st of
          None \<Rightarrow> s\<lparr> s_updatedAt := now, lastSyncAt := Some now, lastSyncError := None \<rparr>
        | Some e \<Rightarrow> s\<lparr> s_updatedAt := now, lastSyncError := Some e \<rparr>)
       sources"

text \<open>\<open>getSources\<close>: all sources, sorted by name.\<close>

definition getSources :: "source_doc list \<Rightarrow> source_doc list" where
  "getSources sources = sort_key s_name sources"

section \<open>Subscription lists (sync/opml.js)\<close>

text \<open>
  An OPML document is read by an XML library (xml2js). The model keeps the element tree of
  the document's \<open>body\<close>: an \<open>outline\<close> element with its attributes and its child
  \<open>outline\<close> elements. Turning the text of a file into this tree, the replacement of entity
  and character references in attribute values included, is the library's work and belongs
  to the environment: the trees that \<open>parseOpml\<close> receives carry the attribute values as the
  library delivers them. The tree of a document that \<open>generateOpml\<close> writes carries the
  attribute values as they stand in the written text.
\<close>

datatype outline = Outline (attrs: "(string \<times> string) list") (subs: "outline list")

record opml_doc =
  docTitle :: string
  dateCreated :: date
  body :: "outline list"



text \<open>
  What \<open>parseStringPromise(content, {explicitArray: false})\<close> hands to \<open>parseOpml\<close>. An
  element's attributes are its \<open>$\<close> (absent when it has none); \<open>o.$?.name\<close> is the
  attribute's value, and an absent attribute and an empty one are both falsy.
\<close>

definition attr :: "outline \<Rightarrow> string \<Rightarrow> string" where
  "attr ol name = (case map_of (attrs ol) name of None \<Rightarrow> [] | Some v \<Rightarrow> v)"

text \<open>JavaScript's \<open>a || b\<close> on strings.\<close>

definition orElse :: "string \<Rightarrow> string \<Rightarrow> string" where
  "orElse a b = (if a \<noteq> [] then a else b)"

text \<open>
  The child elements \<open>x.outline\<close>: absent without children, the element itself for a single
  child, an array otherwise. A single child with neither attributes nor children is the
  empty string, which is falsy like the absent property.
\<close>

definition truthyOutlines :: "outline list \<Rightarrow> bool" where
  "truthyOutlines ols \<longleftrightarrow> ols \<noteq> [] \<and> ols \<noteq> [Outline [] []]"

definition lowerChar :: "char \<Rightarrow> char" where
  "lowerChar c =
     (if CHR ''A'' \<le> c \<and> c \<le> CHR ''Z'' then char_of (of_char c + (32::nat)) else c)"

fun strIncludes :: "string \<Rightarrow> string \<Rightarrow> bool" where
  "strIncludes [] pat = (pat = [])"
| "strIncludes (c # cs) pat = (take (length pat) (c # cs) = pat \<or> strIncludes cs pat)"

definition detectFeedType :: "string \<Rightarrow> string" where
  "detectFeedType t =
     (if t = [] then ''rss''
      else if strIncludes (map lowerChar t) ''atom'' then ''atom''
      else if strIncludes (map lowerChar t) ''json'' then ''jsonfeed''
      else ''rss'')"

text \<open>A blog entry as \<open>parseOpml\<close> returns it.\<close>

record candidate =
  c_title :: string
  c_feedUrl :: string
  c_siteUrl :: string
  c_feedType :: string
  c_category :: string

text \<open>An outline with an \<open>xmlUrl\<close> gives one entry, any other outline none.\<close>

definition feedEntry :: "string \<Rightarrow> outline \<Rightarrow> candidate list" where
  "feedEntry cat ol =
     (if attr ol ''xmlUrl'' \<noteq> [] then
        [\<lparr> c_title = orElse (attr ol ''text'') (orElse (attr ol ''title'') ''Unknown''),
           c_feedUrl = attr ol ''xmlUrl'',
           c_siteUrl = attr ol ''htmlUrl'',
           c_feedType = detectFeedType (attr ol ''type''),
           c_category = cat \<rparr>]
      else [])"

text \<open>
  The body of the loop over the top-level outlines: an outline with children is a category
  whose children with an \<open>xmlUrl\<close> are its feeds; any other outline is a feed without
  category when it has an \<open>xmlUrl\<close>.
\<close>

definition outlineEntries :: "outline \<Rightarrow> candidate list" where
  "outlineEntries ol =
     (if truthyOutlines (subs ol)
      then concat (map (feedEntry (orElse (attr ol ''text'') (attr ol ''title''))) (subs ol))
      else feedEntry [] ol)"

definition parseOutlines :: "outline list \<Rightarrow> candidate list" where
  "parseOutlines outlines =
     (if \<not> truthyOutlines outlines then []
      else concat (map outlineEntries outlines))"

definition parseOpml :: "opml_doc \<Rightarrow> candidate list" where
  "parseOpml doc = parseOutlines (body doc)"

subsection \<open>Export\<close>


text \<open>The object's own properties, in insertion order: \<open>grouped[cat].push(blog)\<close>.\<close>

fun groupPush :: "(string \<times> 'a list) list \<Rightarrow> string \<Rightarrow> 'a \<Rightarrow> (string \<times> 'a list) list" where
  "groupPush [] k v = [(k, [v])]"
| "groupPush ((k', vs) # g) k v =
     (if k' = k then (k', vs @ [v]) # g else (k', vs) # groupPush g k v)"









section \<open>The environment\<close>

text \<open>
  What the code obtains from outside the repository: the network, the feed and XML
  parsers, the URL and hash libraries and the clock. A failing call carries the message
  of the error it throws.

  A parsed feed is the list of its entries with their text already sanitized and
  normalized; \<open>e_id\<close> is the entry's natural identifier (\<open>item.guid || item.link\<close> for RSS and
  Atom, \<open>item.id || item.url\<close> for a JSON feed), absent when the feed gives neither.
\<close>

record feed_entry =
  e_id :: "string option"
  e_url :: "string option"
  e_title :: string
  e_html :: "string option"
  e_plain :: "string option"
  e_summary :: string
  e_published :: date
  e_updated :: "date option"
  e_author :: "string option"
  e_photo :: "string list option"
  e_categories :: "string list"

record parsed_feed =
  pf_title :: "string option"
  pf_siteUrl :: "string option"
  pf_photo :: "string option"
  pf_entries :: "feed_entry list"

text \<open>The moments at which a run reads the clock.\<close>

datatype tick = RunStart | Sweep | SourceSync oid | BlogSync oid | RunEnd

record env =
  sha256hex :: "string \<Rightarrow> string"
  fetchFeed :: "string \<Rightarrow> string + parsed_feed"
  fetchXml :: "string option \<Rightarrow> string + opml_doc"
  readXml :: "string option \<Rightarrow> string + opml_doc"
  extractDomainFromUrl :: "string \<Rightarrow> string"
  extractSiteUrl :: "string \<Rightarrow> string"
  encodeURIComponent :: "string option \<Rightarrow> string"
  clock :: "tick \<Rightarrow> date"

section \<open>Feeds (sync/feed.js)\<close>

text \<open>
  \<open>generateUid\<close>: the first 24 hex digits of the SHA-256 of \<open>feedUrl::itemId\<close>; an absent
  item id is rendered \<open>undefined\<close> by the template string.
\<close>

definition generateUid :: "(string \<Rightarrow> string) \<Rightarrow> string \<Rightarrow> string option \<Rightarrow> string" where
  "generateUid hash url itemId =
     take 24 (hash (url @ ''::'' @ (case itemId of None \<Rightarrow> ''undefined'' | Some i \<Rightarrow> i)))"

text \<open>
  The normalized item of an entry (\<open>normalizeItem\<close>, \<open>parseJsonFeed\<close>), with the owning blog
  that \<open>syncBlogItems\<close> adds. The dates are ISO strings (\<open>toISOString()\<close>).
\<close>

definition normalizeItem :: "env \<Rightarrow> string \<Rightarrow> oid \<Rightarrow> feed_entry \<Rightarrow> item_data" where
  "normalizeItem e url bid en =
     \<lparr> x_blogId = bid, x_uid = generateUid (sha256hex e) url (e_id en), x_url = e_url en,
       x_title = e_title en, x_html = e_html en, x_plain = e_plain en,
       x_summary = e_summary en, x_published = IsoString (e_published en),
       x_updated = map_option IsoString (e_updated en), x_author = e_author en,
       x_photo = e_photo en, x_categories = e_categories en \<rparr>"

text \<open>\<open>fetchAndParseFeed(url, {timeout, maxItems})\<close>: at most \<open>maxItems\<close> entries.\<close>

definition fetchAndParseFeed :: "env \<Rightarrow> string \<Rightarrow> nat \<Rightarrow> string + parsed_feed" where
  "fetchAndParseFeed e url maxItems =
     (case fetchFeed e url of
        Inl err \<Rightarrow> Inl err
      | Inr feed \<Rightarrow> Inr (feed\<lparr> pf_entries := take maxItems (pf_entries feed) \<rparr>))"

text \<open>The loop of \<open>syncBlogItems\<close> over the feed's items; it counts the inserts.\<close>

fun upsertItems :: "date \<Rightarrow> item_data list \<Rightarrow> item_doc list \<times> nat \<Rightarrow> item_doc list \<times> nat" where
  "upsertItems now [] acc = acc"
| "upsertItems now (d # ds) (its, nAdded) =
     (let (its', r) = upsertItem now its d
      in upsertItems now ds (its', if ir_upserted r then nAdded + 1 else nAdded))"

datatype sync_result = Synced nat nat | SyncFailed string

fun success :: "sync_result \<Rightarrow> bool" where
  "success (Synced a n) = True"
| "success (SyncFailed err) = False"

text \<open>The statistics of the last full run, as \<open>runFullSync\<close> stores and returns them.\<close>

record run_stats =
  lastFullSync :: date
  duration :: int
  sources_total :: nat
  sources_success :: nat
  sources_failed :: nat
  blogs_total :: nat
  blogs_success :: nat
  blogs_failed :: nat
  items_added :: nat
  items_deleted :: nat

text \<open>The four collections: \<open>blogrollBlogs\<close>, \<open>blogrollItems\<close>, \<open>blogrollSources\<close> and the
  \<open>syncStats\<close> document of \<open>blogrollMeta\<close>.\<close>

record database =
  blogrollBlogs :: "blog_doc list"
  blogrollItems :: "item_doc list"
  blogrollSources :: "source_doc list"
  blogrollMeta :: "run_stats option"

text \<open>
  \<open>syncBlogItems(application, blog, {maxItems, timeout})\<close>. A failed fetch is caught here:
  it is written to the blog's own document and returned as \<open>{success: false, error}\<close>.
\<close>

definition syncBlogItems :: "env \<Rightarrow> date \<Rightarrow> nat \<Rightarrow> database \<Rightarrow> blog_doc \<Rightarrow> database \<times> sync_result" where
  "syncBlogItems e now maxItems db blog =
     (case fetchAndParseFeed e (feedUrl blog) maxItems of
        Inl err \<Rightarrow>
          (db\<lparr> blogrollBlogs := updateBlogStatus now (blog_id blog) (FetchFailed err) (blogrollBlogs db) \<rparr>,
           SyncFailed err)
      | Inr feed \<Rightarrow>
          (let (its', nAdded) =
                 upsertItems now (map (normalizeItem e (feedUrl blog) (blog_id blog)) (pf_entries feed))
                   (blogrollItems db, 0);
               st = FetchOk (length (pf_entries feed))
                      (if title blog = feedUrl blog then pf_title feed else None)
                      (if orNull (photo blog) = None then pf_photo feed else None)
                      (if orNull (siteUrl blog) = None then pf_siteUrl feed else None)
           in (db\<lparr> blogrollItems := its',
                   blogrollBlogs := updateBlogStatus now (blog_id blog) st (blogrollBlogs db) \<rparr>,
               Synced nAdded (length (pf_entries feed)))))"

section \<open>Source adapters\<close>

datatype source_result = SourceSynced nat nat "nat option" nat | SourceFailed string

fun sourceSuccess :: "source_result \<Rightarrow> bool" where
  "sourceSuccess (SourceSynced a u orph n) = True"
| "sourceSuccess (SourceFailed err) = False"

text \<open>
  The loop every adapter runs over its candidates: \<open>upsertBlog\<close> each, count an insert as
  added and, failing that, a modification as updated.
\<close>

fun upsertAll :: "date \<Rightarrow> blog_data list \<Rightarrow> blog_doc list \<times> nat \<times> nat \<Rightarrow> blog_doc list \<times> nat \<times> nat" where
  "upsertAll now [] acc = acc"
| "upsertAll now (d # ds) (bs, nAdded, nUpdated) =
     (let (bs', r) = upsertBlog now bs d
      in upsertAll now ds
           (bs', if upserted r then nAdded + 1 else nAdded,
            if \<not> upserted r \<and> modified r then nUpdated + 1 else nUpdated))"

text \<open>The candidate as an adapter passes it on: \<open>{...blog, sourceId: source._id}\<close>.\<close>

definition candidateData :: "oid \<Rightarrow> candidate \<Rightarrow> blog_data" where
  "candidateData sid c =
     \<lparr> d_title = c_title c, d_feedUrl = c_feedUrl c, d_siteUrl = c_siteUrl c,
       d_feedType = c_feedType c, d_category = c_category c, d_sourceId = Some sid,
       d_source = None, d_microsubFeedId = None, d_microsubChannelId = None,
       d_microsubChannelName = None, d_skipItemFetch = None, d_photo = None,
       d_lastFetchAt = None, d_status = None \<rparr>"

definition typeName :: "source_type \<Rightarrow> string" where
  "typeName t = (case t of OpmlUrl \<Rightarrow> ''opml_url'' | OpmlFile \<Rightarrow> ''opml_file''
     | Manual \<Rightarrow> ''manual'' | JsonFeed \<Rightarrow> ''json_feed'' | Microsub \<Rightarrow> ''microsub''
     | Feedland \<Rightarrow> ''feedland'')"

subsection \<open>The list adapter (sync/opml.js)\<close>

definition fetchAndParseOpml :: "env \<Rightarrow> string option \<Rightarrow> string + candidate list" where
  "fetchAndParseOpml e url = (case fetchXml e url of Inl err \<Rightarrow> Inl err | Inr doc \<Rightarrow> Inr (parseOpml doc))"

definition syncOpmlSource :: "env \<Rightarrow> date \<Rightarrow> database \<Rightarrow> source_doc \<Rightarrow> database \<times> source_result" where
  "syncOpmlSource e now db src =
     (case (if s_type src = OpmlUrl then fetchAndParseOpml e (s_url src)
            else if s_type src = OpmlFile then
              (case readXml e (opmlContent src) of Inl err \<Rightarrow> Inl err | Inr doc \<Rightarrow> Inr (parseOpml doc))
            else Inl (''Unsupported source type: '' @ typeName (s_type src))) of
        Inl err \<Rightarrow>
          (db\<lparr> blogrollSources := updateSourceSyncStatus now (source_id src) (Some err) (blogrollSources db) \<rparr>,
           SourceFailed err)
      | Inr cands \<Rightarrow>
          (let (bs, nAdded, nUpdated) =
                 upsertAll now (map (candidateData (source_id src)) cands) (blogrollBlogs db, 0, 0)
           in (db\<lparr> blogrollBlogs := bs,
                   blogrollSources := updateSourceSyncStatus now (source_id src) None (blogrollSources db) \<rparr>,
               SourceSynced nAdded nUpdated None (length cands))))"

subsection \<open>The remote-directory adapter (sync/feedland.js)\<close>

text \<open>\<open>s.replace(/\/+$/, "")\<close>.\<close>

definition stripTrailingSlashes :: "string \<Rightarrow> string" where
  "stripTrailingSlashes s = rev (dropWhile (\<lambda>c. c = CHR ''/'') (rev s))"

text \<open>With no instance configured, \<open>source.feedlandInstance.replace\<close> throws.\<close>

definition buildFeedlandOpmlUrl :: "env \<Rightarrow> source_doc \<Rightarrow> string + string" where
  "buildFeedlandOpmlUrl e src =
     (case feedlandInstance src of
        None \<Rightarrow> Inl ''Cannot read properties of null (reading 'replace')''
      | Some inst \<Rightarrow>
          Inr (stripTrailingSlashes inst @ ''/opml?screenname=''
               @ encodeURIComponent e (feedlandUsername src)
               @ (case orNull (feedlandCategory src) of
                    None \<Rightarrow> []
                  | Some c \<Rightarrow> ''&catname='' @ encodeURIComponent e (Some c))))"

text \<open>
  The category of an imported blog:
  \<open>blog.category || source.feedlandCategory || source.feedlandUsername || ""\<close>.
\<close>

definition feedlandCategoryOf :: "source_doc \<Rightarrow> candidate \<Rightarrow> string" where
  "feedlandCategoryOf src c =
     orElse (c_category c)
       (orElse (case feedlandCategory src of None \<Rightarrow> [] | Some x \<Rightarrow> x)
         (orElse (case feedlandUsername src of None \<Rightarrow> [] | Some x \<Rightarrow> x) []))"

definition feedlandData :: "source_doc \<Rightarrow> candidate \<Rightarrow> blog_data" where
  "feedlandData src c =
     (candidateData (source_id src) c)
       \<lparr> d_category := feedlandCategoryOf src c, d_source := Some ''feedland'' \<rparr>"

definition syncFeedlandSource :: "env \<Rightarrow> date \<Rightarrow> database \<Rightarrow> source_doc \<Rightarrow> database \<times> source_result" where
  "syncFeedlandSource e now db src =
     (case (case buildFeedlandOpmlUrl e src of
              Inl err \<Rightarrow> Inl err
            | Inr opmlUrl \<Rightarrow> fetchAndParseOpml e (Some opmlUrl)) of
        Inl err \<Rightarrow>
          (db\<lparr> blogrollSources := updateSourceSyncStatus now (source_id src) (Some err) (blogrollSources db) \<rparr>,
           SourceFailed err)
      | Inr cands \<Rightarrow>
          (let (bs, nAdded, nUpdated) = upsertAll now (map (feedlandData src) cands) (blogrollBlogs db, 0, 0)
           in (db\<lparr> blogrollBlogs := bs,
                   blogrollSources := updateSourceSyncStatus now (source_id src) None (blogrollSources db) \<rparr>,
               SourceSynced nAdded nUpdated None (length cands))))"

subsection \<open>The mirror adapter (sync/microsub.js)\<close>

text \<open>
  The two collections of the Microsub plugin; the \<open>_id\<close>s are kept as the strings
  \<open>toString()\<close> gives. They are present only when the plugin is installed.
\<close>

record channel =
  ch_id :: string
  ch_uid :: string
  ch_name :: string

record microsub_feed =
  mf_id :: string
  mf_channelId :: string
  mf_url :: string
  mf_title :: "string option"
  mf_status :: "string option"
  mf_lastFetchedAt :: "date option"
  mf_photo :: "string option"

record application =
  blogrollDb :: "database option"
  microsub_channels :: "channel list option"
  microsub_feeds :: "microsub_feed list option"

definition microsubData :: "env \<Rightarrow> source_doc \<Rightarrow> channel \<times> microsub_feed \<Rightarrow> blog_data" where
  "microsubData e src cf =
     (case cf of (ch, feed) \<Rightarrow>
     \<lparr> d_title = (case orNull (mf_title feed) of
                    None \<Rightarrow> extractDomainFromUrl e (mf_url feed) | Some t \<Rightarrow> t),
       d_feedUrl = mf_url feed,
       d_siteUrl = extractSiteUrl e (mf_url feed),
       d_feedType = ''rss'',
       d_category = (if categoryPrefix src \<noteq> [] then categoryPrefix src @ ch_name ch
                     else ch_name ch),
       d_sourceId = Some (source_id src),
       d_source = Some ''microsub'',
       d_microsubFeedId = Some (mf_id feed),
       d_microsubChannelId = Some (ch_id ch),
       d_microsubChannelName = Some (ch_name ch),
       d_skipItemFetch = Some True,
       d_photo = Some (orNull (mf_photo feed)),
       d_lastFetchAt = Some (mf_lastFetchedAt feed),
       d_status = Some (if mf_status feed = Some ''error'' then Error else Active) \<rparr>)"

text \<open>The channels the source mirrors, and each one's feeds, in the order of the loops.\<close>

definition currentFeeds :: "source_doc \<Rightarrow> channel list \<Rightarrow> microsub_feed list
    \<Rightarrow> (channel \<times> microsub_feed) list" where
  "currentFeeds src chans feeds =
     concat (map (\<lambda>ch. map (\<lambda>f. (ch, f)) (filter (\<lambda>f. mf_channelId f = ch_id ch) feeds))
       (case orNull (channelFilter src) of
          None \<Rightarrow> chans
        | Some u \<Rightarrow> filter (\<lambda>ch. ch_uid ch = u) chans))"

text \<open>
  The filter of the orphan pass: a mirror blog of this source, not deleted, whose
  \<open>microsubFeedId\<close> is not among the current ones (\<open>$nin\<close> also matches a \<open>null\<close>).
\<close>

definition isOrphan :: "source_doc \<Rightarrow> string list \<Rightarrow> blog_doc \<Rightarrow> bool" where
  "isOrphan src currentIds b \<longleftrightarrow>
     source b = Some ''microsub'' \<and> sourceId b = Some (source_id src) \<and>
     (case microsubFeedId b of None \<Rightarrow> True | Some f \<Rightarrow> f \<notin> set currentIds) \<and>
     status b \<noteq> Deleted"

definition syncMicrosubSource ::
  "env \<Rightarrow> date \<Rightarrow> application \<Rightarrow> database \<Rightarrow> source_doc \<Rightarrow> database \<times> source_result" where
  "syncMicrosubSource e now app db src =
     (case (microsub_channels app, microsub_feeds app) of
        (Some chans, Some feeds) \<Rightarrow>
          (if (case orNull (channelFilter src) of
                 None \<Rightarrow> chans | Some u \<Rightarrow> filter (\<lambda>ch. ch_uid ch = u) chans) = []
           then (db\<lparr> blogrollSources := updateSourceSyncStatus now (source_id src) None (blogrollSources db) \<rparr>,
                 SourceSynced 0 0 None 0)
           else
             (let current = currentFeeds src chans feeds;
                  currentMicrosubFeedIds = map (\<lambda>cf. mf_id (snd cf)) current;
                  (bs, nAdded, nUpdated) =
                     upsertAll now (map (microsubData e src) current) (blogrollBlogs db, 0, 0);
                  orphaned = (if currentMicrosubFeedIds \<noteq> []
                              then length (filter (isOrphan src currentMicrosubFeedIds) bs) else 0);
                  bs' = (if currentMicrosubFeedIds \<noteq> []
                         then updateMany (isOrphan src currentMicrosubFeedIds) (softDelete now) bs
                         else bs)
              in (db\<lparr> blogrollBlogs := bs',
                      blogrollSources := updateSourceSyncStatus now (source_id src) None (blogrollSources db) \<rparr>,
                  SourceSynced nAdded nUpdated (Some orphaned) (length current))))
      | _ \<Rightarrow>
          (db\<lparr> blogrollSources := updateSourceSyncStatus now (source_id src)
                  (Some ''Microsub collections not available. Is the Microsub plugin installed?'')
                  (blogrollSources db) \<rparr>,
           SourceFailed ''Microsub collections not available. Is the Microsub plugin installed?''))"

text \<open>
  \<open>handleMicrosubWebhook\<close>, the \<open>subscribe\<close> action: a blog is added only when no
  non-deleted blog has the feed URL.
\<close>

datatype webhook_outcome = SkippedAlreadyExists | SkippedManualEntry | Added

definition webhookSubscribe ::
  "env \<Rightarrow> date \<Rightarrow> blog_doc list \<Rightarrow> string \<Rightarrow> string option \<Rightarrow> string option
     \<Rightarrow> blog_doc list \<times> webhook_outcome" where
  "webhookSubscribe e now bs url channelName t =
     (case getBlogByFeedUrl bs url of
        Some existing \<Rightarrow>
          (bs, if source existing = Some ''microsub'' then SkippedAlreadyExists
               else SkippedManualEntry)
      | None \<Rightarrow>
          (fst (upsertBlog now bs
             \<lparr> d_title = (case orNull t of None \<Rightarrow> extractDomainFromUrl e url | Some x \<Rightarrow> x),
               d_feedUrl = url, d_siteUrl = extractSiteUrl e url, d_feedType = ''rss'',
               d_category = (case orNull channelName of None \<Rightarrow> ''Microsub'' | Some c \<Rightarrow> c),
               d_sourceId = None, d_source = Some ''microsub-webhook'',
               d_microsubFeedId = None, d_microsubChannelId = None,
               d_microsubChannelName = None, d_skipItemFetch = None, d_photo = None,
               d_lastFetchAt = None, d_status = Some Pending \<rparr>),
           Added))"

section \<open>The scheduler (sync/scheduler.js)\<close>

text \<open>The options of a run; the source's defaults are 50 items, 15000 ms and 7 days.\<close>

record sync_options =
  maxItemsPerBlog :: nat
  fetchTimeout :: nat
  maxItemAge :: int

text \<open>
  The state a run works on: the module's \<open>isRunning\<close> flag and the application with its
  database handle.
\<close>

record process =
  isRunning :: bool
  app :: application

text \<open>
  The loop over the enabled sources. Every adapter catches its own errors and returns
  \<open>{success: false, error}\<close>, so the loop's own \<open>catch\<close> is not reached here.
\<close>

fun syncSources :: "env \<Rightarrow> application \<Rightarrow> source_doc list \<Rightarrow> database \<times> nat \<times> nat
    \<Rightarrow> database \<times> nat \<times> nat" where
  "syncSources e ap [] acc = acc"
| "syncSources e ap (src # rest) (db, sourcesSuccess, sourcesFailed) =
     (let (db', r) =
        (if s_type src = Microsub
         then syncMicrosubSource e (clock e (SourceSync (source_id src))) ap db src
         else if s_type src = Feedland
         then syncFeedlandSource e (clock e (SourceSync (source_id src))) db src
         else syncOpmlSource e (clock e (SourceSync (source_id src))) db src)
      in syncSources e ap rest
           (db', if sourceSuccess r then sourcesSuccess + 1 else sourcesSuccess,
            if sourceSuccess r then sourcesFailed else sourcesFailed + 1))"

record blog_tally =
  blogsSuccess :: nat
  blogsFailed :: nat
  blogsSkipped :: nat
  newItems :: nat

text \<open>A blog the loop does not fetch: a mirror blog, or one flagged \<open>skipItemFetch\<close>.\<close>

definition skipsFetch :: "blog_doc \<Rightarrow> bool" where
  "skipsFetch b \<longleftrightarrow> source b = Some ''microsub'' \<or> skipItemFetch b"

text \<open>
  The loop over the blogs. \<open>syncBlogItems\<close> catches a failed fetch itself, so a failure
  reaches the loop as a result with \<open>success: false\<close>.
\<close>

fun syncBlogs :: "env \<Rightarrow> nat \<Rightarrow> blog_doc list \<Rightarrow> database \<times> blog_tally \<Rightarrow> database \<times> blog_tally" where
  "syncBlogs e maxItems [] acc = acc"
| "syncBlogs e maxItems (b # rest) (db, t) =
     (if skipsFetch b
      then syncBlogs e maxItems rest (db, t\<lparr> blogsSkipped := blogsSkipped t + 1 \<rparr>)
      else
        (let (db', r) = syncBlogItems e (clock e (BlogSync (blog_id b))) maxItems db b
         in syncBlogs e maxItems rest
              (db', case r of
                      Synced a n \<Rightarrow> t\<lparr> blogsSuccess := blogsSuccess t + 1, newItems := newItems t + a \<rparr>
                    | SyncFailed err \<Rightarrow> t\<lparr> blogsFailed := blogsFailed t + 1 \<rparr>)))"

text \<open>
  What the loop adds to its counters for one blog: \<open>blogsSkipped++\<close> for a blog that is
  skipped (\<open>None\<close>), \<open>blogsSuccess++\<close> and \<open>newItems += result.added\<close> for a result with
  \<open>success: true\<close>, \<open>blogsFailed++\<close> for any other result.
\<close>

fun tallyStep :: "blog_tally \<Rightarrow> sync_result option \<Rightarrow> blog_tally" where
  "tallyStep t None = t\<lparr> blogsSkipped := blogsSkipped t + 1 \<rparr>"
| "tallyStep t (Some (Synced a n)) =
     t\<lparr> blogsSuccess := blogsSuccess t + 1, newItems := newItems t + a \<rparr>"
| "tallyStep t (Some (SyncFailed err)) = t\<lparr> blogsFailed := blogsFailed t + 1 \<rparr>"

text \<open>
  The result of the \<open>j\<close>-th blog in the loop over \<open>bs\<close> that starts on the database \<open>db\<close>:
  \<open>None\<close> for a blog that is skipped, else what \<open>syncBlogItems\<close> returns when it is called
  on the database that the loop has reached after the first \<open>j\<close> blogs.
\<close>

definition blogResult :: "env \<Rightarrow> nat \<Rightarrow> blog_doc list \<Rightarrow> database \<Rightarrow> nat \<Rightarrow> sync_result option" where
  "blogResult e maxItems bs db j =
     (if skipsFetch (bs ! j) then None
      else Some (snd (syncBlogItems e (clock e (BlogSync (blog_id (bs ! j)))) maxItems
             (fst (syncBlogs e maxItems (take j bs)
                (db, \<lparr> blogsSuccess = 0, blogsFailed = 0, blogsSkipped = 0, newItems = 0 \<rparr>)))
             (bs ! j))))"

definition enabledSources :: "source_doc list \<Rightarrow> source_doc list" where
  "enabledSources srcs =
     filter (\<lambda>s. enabled s \<and> s_type s \<in> {OpmlUrl, OpmlFile, JsonFeed, Microsub, Feedland})
       (getSources srcs)"

text \<open>The database as the first two stages leave it: retention sweep, then the sources.\<close>

definition afterSources :: "env \<Rightarrow> sync_options \<Rightarrow> application \<Rightarrow> database \<Rightarrow> database \<times> nat \<times> nat" where
  "afterSources e opts ap db =
     syncSources e ap (enabledSources (blogrollSources db))
       (db\<lparr> blogrollItems := fst (deleteOldItems (clock e Sweep) (maxItemAge opts) (blogrollItems db)) \<rparr>,
        0, 0)"

text \<open>
  The body of the \<open>try\<close> block of \<open>runFullSync\<close>. Every storage function starts with
  \<open>application.getBlogrollDb().collection(...)\<close>: without a database handle the first of them,
  \<open>deleteOldItems\<close>, throws, and the error reaches the \<open>catch\<close> of \<open>runFullSync\<close>.
\<close>

definition fullSync :: "env \<Rightarrow> sync_options \<Rightarrow> application \<Rightarrow> string + (application \<times> run_stats)" where
  "fullSync e opts ap =
     (case blogrollDb ap of
        None \<Rightarrow> Inl ''Cannot read properties of undefined (reading 'collection')''
      | Some db \<Rightarrow>
          (let deletedItems = snd (deleteOldItems (clock e Sweep) (maxItemAge opts) (blogrollItems db));
               (db2, sourcesSuccess, sourcesFailed) = afterSources e opts ap db;
               bs = getBlogs (blogrollBlogs db2);
               (db3, t) = syncBlogs e (maxItemsPerBlog opts) bs
                  (db2, \<lparr> blogsSuccess = 0, blogsFailed = 0, blogsSkipped = 0, newItems = 0 \<rparr>);
               stats = \<lparr> lastFullSync = clock e RunEnd,
                         duration = clock e RunEnd - clock e RunStart,
                         sources_total = length (enabledSources (blogrollSources db)),
                         sources_success = sourcesSuccess,
                         sources_failed = sourcesFailed,
                         blogs_total = length bs,
                         blogs_success = blogsSuccess t,
                         blogs_failed = blogsFailed t,
                         items_added = newItems t,
                         items_deleted = deletedItems \<rparr>
           in Inr (ap\<lparr> blogrollDb := Some (db3\<lparr> blogrollMeta := Some stats \<rparr>) \<rparr>, stats)))"

text \<open>
  What \<open>runFullSync\<close> returns: \<open>{skipped: true}\<close>, \<open>{success: false, error}\<close>, or
  \<open>{success: true, ...}\<close> with the statistics.
\<close>

datatype run_result = RunSkipped | RunFailed string | RunOk run_stats

text \<open>
  \<open>runFullSync\<close>: rejected at once when a run is active; otherwise the flag is set, the
  body runs, and the \<open>finally\<close> clause clears the flag whichever way the body ends.
\<close>

definition runFullSync :: "env \<Rightarrow> sync_options \<Rightarrow> process \<Rightarrow> run_result \<times> process" where
  "runFullSync e opts p =
     (if isRunning p then (RunSkipped, p)
      else
        (let p1 = p\<lparr> isRunning := True \<rparr>;
             (r, p2) = (case fullSync e opts (app p1) of
                          Inl err \<Rightarrow> (RunFailed err, p1)
                        | Inr (ap, stats) \<Rightarrow> (RunOk stats, p1\<lparr> app := ap \<rparr>))
         in (r, p2\<lparr> isRunning := False \<rparr>)))"

section \<open>Invariants of the blog collection\<close>

definition nonDeleted :: "blog_doc list \<Rightarrow> blog_doc list" where
  "nonDeleted bs = filter (\<lambda>b. status b \<noteq> Deleted) bs"

text \<open>At most one non-deleted blog per feed URL.\<close>

definition uniqueFeedUrl :: "blog_doc list \<Rightarrow> bool" where
  "uniqueFeedUrl bs \<longleftrightarrow> distinct (map feedUrl (nonDeleted bs))"

text \<open>At most one non-deleted blog per feed URL and source id: the key of \<open>upsertBlog\<close>.\<close>

definition feedKey :: "blog_doc \<Rightarrow> string \<times> oid option" where
  "feedKey b = (feedUrl b, sourceId b)"

definition uniqueFeedKey :: "blog_doc list \<Rightarrow> bool" where
  "uniqueFeedKey bs \<longleftrightarrow> distinct (map feedKey (nonDeleted bs))"

text \<open>The composite key of an item.\<close>

definition itemKey :: "item_doc \<Rightarrow> oid \<times> string" where
  "itemKey i = (blogId i, uid i)"

section \<open>Example documents\<close>

definition exampleBlog :: "oid \<Rightarrow> string \<Rightarrow> oid option \<Rightarrow> blog_status \<Rightarrow> blog_doc" where
  "exampleBlog i url sid st =
     \<lparr> blog_id = i, sourceId = sid, title = ''Example'', description = None,
       feedUrl = url, siteUrl = None, feedType = ''rss'', category = ''tech'', tags = [],
       photo = None, author = None, status = st, lastFetchAt = None, lastError = None,
       itemCount = 0, pinned = False, hidden = (st = Deleted), blogNotes = None,
       createdAt = 0, updatedAt = 0, source = None, microsubFeedId = None,
       microsubChannelId = None, microsubChannelName = None, skipItemFetch = False,
       deletedAt = None \<rparr>"

definition exampleData :: "string \<Rightarrow> oid option \<Rightarrow> blog_data" where
  "exampleData url sid =
     \<lparr> d_title = ''Example'', d_feedUrl = url, d_siteUrl = [], d_feedType = ''rss'',
       d_category = ''tech'', d_sourceId = sid, d_source = None, d_microsubFeedId = None,
       d_microsubChannelId = None, d_microsubChannelName = None, d_skipItemFetch = None,
       d_photo = None, d_lastFetchAt = None, d_status = None \<rparr>"

definition exampleEntry :: "string \<Rightarrow> date \<Rightarrow> feed_entry" where
  "exampleEntry guid t =
     \<lparr> e_id = Some guid, e_url = Some guid, e_title = ''Post'', e_html = None,
       e_plain = None, e_summary = [], e_published = t, e_updated = None, e_author = None,
       e_photo = None, e_categories = [] \<rparr>"

definition exampleFeed :: "feed_entry list \<Rightarrow> parsed_feed" where
  "exampleFeed es = \<lparr> pf_title = None, pf_siteUrl = None, pf_photo = None, pf_entries = es \<rparr>"

text \<open>An environment in which the feed at \<open>ok.example\<close> has one entry and every other fetch
  fails.\<close>

definition exampleEnv :: env where
  "exampleEnv =
     \<lparr> sha256hex = (\<lambda>s. s),
       fetchFeed = (\<lambda>u. if u = ''https://ok.example/feed''
                        then Inr (exampleFeed [exampleEntry ''p1'' 5000]) else Inl ''HTTP 404''),
       fetchXml = (\<lambda>u. Inl ''HTTP 404''),
       readXml = (\<lambda>c. Inl ''Unexpected end''),
       extractDomainFromUrl = (\<lambda>u. u),
       extractSiteUrl = (\<lambda>u. []),
       encodeURIComponent = (\<lambda>s. case s of None \<Rightarrow> ''null'' | Some x \<Rightarrow> x),
       clock = (\<lambda>t. 1000000000) \<rparr>"

definition exampleOptions :: sync_options where
  "exampleOptions = \<lparr> maxItemsPerBlog = 50, fetchTimeout = 15000, maxItemAge = 7 \<rparr>"

definition exampleSource :: "oid \<Rightarrow> source_type \<Rightarrow> source_doc" where
  "exampleSource i t =
     \<lparr> source_id = i, s_type = t, s_name = ''Source'', s_url = None, opmlContent = None,
       channelFilter = None, categoryPrefix = [], feedlandInstance = None,
       feedlandUsername = None, feedlandCategory = None, enabled = True, syncInterval = 60,
       lastSyncAt = None, lastSyncError = None, s_createdAt = 0, s_updatedAt = 0 \<rparr>"

definition exampleDb :: "blog_doc list \<Rightarrow> database" where
  "exampleDb bs = \<lparr> blogrollBlogs = bs, blogrollItems = [], blogrollSources = [], blogrollMeta = None \<rparr>"

definition exampleApp :: "database option \<Rightarrow> application" where
  "exampleApp db = \<lparr> blogrollDb = db, microsub_channels = None, microsub_feeds = None \<rparr>"

definition feedlandEnv :: env where
  "feedlandEnv = exampleEnv\<lparr> fetchXml := (\<lambda>u. Inr \<lparr> docTitle = ''subs'', dateCreated = 0,
      body = [Outline [(''text'', ''Blog''), (''type'', ''rss''),
                       (''xmlUrl'', ''https://a.example/feed'')] []] \<rparr>) \<rparr>"

definition mirrorBlog :: "oid \<Rightarrow> string \<Rightarrow> oid \<Rightarrow> string \<Rightarrow> blog_doc" where
  "mirrorBlog i url sid fid =
     (exampleBlog i url (Some sid) Active)
       \<lparr> source := Some ''microsub'', microsubFeedId := Some fid, skipItemFetch := True \<rparr>"

definition exampleMicrosubFeed :: "string \<Rightarrow> string \<Rightarrow> microsub_feed" where
  "exampleMicrosubFeed fid url =
     \<lparr> mf_id = fid, mf_channelId = ''c1'', mf_url = url, mf_title = Some ''Feed'',
       mf_status = None, mf_lastFetchedAt = None, mf_photo = None \<rparr>"

definition microsubApp :: "microsub_feed list \<Rightarrow> application" where
  "microsubApp fs =
     \<lparr> blogrollDb = None,
       microsub_channels = Some [\<lparr> ch_id = ''c1'', ch_uid = ''news'', ch_name = ''News'' \<rparr>],
       microsub_feeds = Some fs \<rparr>"

section \<open>Notions used in the properties\<close>

text \<open>The key of a normalized item.\<close>

definition dataKey :: "item_data \<Rightarrow> oid \<times> string" where
  "dataKey d = (x_blogId d, x_uid d)"

text \<open>
  What \<open>syncBlogItems\<close> takes from the environment for a blog: the status it writes to the
  blog's document and the items it upserts.
\<close>

definition fetchStatus :: "env \<Rightarrow> nat \<Rightarrow> blog_doc \<Rightarrow> fetch_status" where
  "fetchStatus e m b =
     (case fetchFeed e (feedUrl b) of
        Inl err \<Rightarrow> FetchFailed err
      | Inr feed \<Rightarrow>
          FetchOk (length (take m (pf_entries feed)))
            (if title b = feedUrl b then pf_title feed else None)
            (if orNull (photo b) = None then pf_photo feed else None)
            (if orNull (siteUrl b) = None then pf_siteUrl feed else None))"

definition fetchedItems :: "env \<Rightarrow> nat \<Rightarrow> blog_doc \<Rightarrow> item_data list" where
  "fetchedItems e m b =
     (case fetchFeed e (feedUrl b) of
        Inl err \<Rightarrow> []
      | Inr feed \<Rightarrow> map (normalizeItem e (feedUrl b) (blog_id b)) (take m (pf_entries feed)))"

text \<open>The item keys of a blog.\<close>

definition keysOf :: "oid \<Rightarrow> item_doc list \<Rightarrow> (oid \<times> string) set" where
  "keysOf bid its = {k \<in> set (map itemKey its). fst k = bid}"

text \<open>Two blog documents with the same \<open>_id\<close> that are equal unless the \<open>_id\<close> is \<open>k\<close>; two blog
  collections that agree in this way document by document.\<close>

definition agreeDoc :: "oid \<Rightarrow> blog_doc \<Rightarrow> blog_doc \<Rightarrow> bool" where
  "agreeDoc k x y \<longleftrightarrow> blog_id x = blog_id y \<and> (blog_id x = k \<or> x = y)"

definition agreeExcept :: "oid \<Rightarrow> blog_doc list \<Rightarrow> blog_doc list \<Rightarrow> bool" where
  "agreeExcept k xs ys \<longleftrightarrow> list_all2 (agreeDoc k) xs ys"

text \<open>The blog loop's effect on the blog collection, one blog at a time.\<close>

definition blogStep :: "env \<Rightarrow> nat \<Rightarrow> blog_doc list \<Rightarrow> blog_doc \<Rightarrow> blog_doc list" where
  "blogStep e m bl b =
     (if skipsFetch b then bl
      else updateBlogStatus (clock e (BlogSync (blog_id b))) (blog_id b) (fetchStatus e m b) bl)"

text \<open>A candidate of one source with the category \<open>K\<close> and no status of its own.\<close>

definition plainData :: "oid \<Rightarrow> string \<Rightarrow> blog_data \<Rightarrow> bool" where
  "plainData sid K d \<longleftrightarrow> d_category d = K \<and> d_sourceId d = Some sid \<and> d_status d = None"

text \<open>A blog of the source with the feed URL \<open>u\<close> and the category \<open>K\<close>.\<close>

definition carries :: "oid \<Rightarrow> string \<Rightarrow> string \<Rightarrow> blog_doc \<Rightarrow> bool" where
  "carries sid K u b \<longleftrightarrow> feedUrl b = u \<and> sourceId b = Some sid \<and> category b = K"

definition noTombstone :: "string \<Rightarrow> blog_doc list \<Rightarrow> bool" where
  "noTombstone u bs \<longleftrightarrow> list_all (\<lambda>x. feedUrl x \<noteq> u \<or> status x \<noteq> Deleted) bs"

text \<open>The blog loop's effect on the item collection, one blog at a time.\<close>

definition itemStep :: "env \<Rightarrow> nat \<Rightarrow> item_doc list \<Rightarrow> blog_doc \<Rightarrow> item_doc list" where
  "itemStep e m its b =
     (if skipsFetch b then its
      else fst (upsertItems (clock e (BlogSync (blog_id b))) (fetchedItems e m b) (its, 0)))"

text \<open>What \<open>updateBlogStatus\<close> leaves on the blog's document.\<close>

definition recorded :: "date \<Rightarrow> fetch_status \<Rightarrow> blog_doc \<Rightarrow> bool" where
  "recorded now st y =
     (case st of
        FetchFailed err \<Rightarrow> status y = Error \<and> lastError y = Some err
      | FetchOk n t p s \<Rightarrow>
          status y = Active \<and> lastError y = None \<and> itemCount y = n \<and> lastFetchAt y = Some now)"








section \<open>Properties\<close>

lemma updateFirst_length [simp]: "length (updateFirst P f xs) = length xs"
  by (induction xs) auto

lemma updateFirst_nth_other:
  "i < length xs \<Longrightarrow> \<not> P (xs ! i) \<Longrightarrow> updateFirst P f xs ! i = xs ! i"
proof (induction xs arbitrary: i)
  case Nil
  then show ?case by simp
next
  case (Cons x xs)
  then show ?case by (cases i) auto
qed

lemma upsertBlog_skips_deleted:
  assumes "\<exists>b\<in>set blogs. feedUrl b = d_feedUrl data \<and> status b = Deleted"
  shows "upsertBlog now blogs data =
      (blogs, \<lparr>upserted = False, modified = False, skippedDeleted = True\<rparr>)"
proof -
  from assms obtain d
    where "List.find (\<lambda>b. feedUrl b = d_feedUrl data \<and> status b = Deleted) blogs = Some d"
    by (cases "List.find (\<lambda>b. feedUrl b = d_feedUrl data \<and> status b = Deleted) blogs")
       (auto simp: find_None_iff)
  then show ?thesis
    by (simp add: upsertBlog_def)
qed

lemma upsertBlog_keeps_deleted:
  assumes i: "i < length blogs" and del: "status (blogs ! i) = Deleted"
  shows "i < length (fst (upsertBlog now blogs data)) \<and>
      fst (upsertBlog now blogs data) ! i = blogs ! i"
proof (cases "List.find (\<lambda>b. feedUrl b = d_feedUrl data \<and> status b = Deleted) blogs")
  case (Some d)
  then show ?thesis using i by (simp add: upsertBlog_def)
next
  case None
  then have "\<not> (feedUrl (blogs ! i) = d_feedUrl data \<and> status (blogs ! i) = Deleted)"
    using i by (auto simp: find_None_iff)
  with del have "\<not> blogFilter data (blogs ! i)"
    by (simp add: blogFilter_def)
  with None i show ?thesis
    by (cases "List.find (blogFilter data) blogs")
       (simp_all add: upsertBlog_def updateFirst_nth_other nth_append)
qed

text \<open>
  C1. Soft-delete suppression: when some stored blog with the candidate's feed URL has
  status \<open>deleted\<close>, \<open>upsertBlog\<close> leaves the collection as it is and returns
  \<open>{upserted: false, modified: false, skippedDeleted: true}\<close>; and whatever the candidate,
  a document whose status is \<open>deleted\<close> keeps its place and its content.
\<close>

theorem upsertBlog_soft_delete_suppression:
  "((\<exists>b\<in>set blogs. feedUrl b = d_feedUrl data \<and> status b = Deleted) \<longrightarrow>
      upsertBlog now blogs data =
        (blogs, \<lparr>upserted = False, modified = False, skippedDeleted = True\<rparr>)) \<and>
   (\<forall>i<length blogs. status (blogs ! i) = Deleted \<longrightarrow>
      i < length (fst (upsertBlog now blogs data)) \<and>
      fst (upsertBlog now blogs data) ! i = blogs ! i)"
  using upsertBlog_skips_deleted upsertBlog_keeps_deleted by blast

theorem upsertBlog_soft_delete_suppression_witness:
  "upsertBlog 1000 [exampleBlog 1 ''https://a.example/feed'' (Some 7) Deleted]
     (exampleData ''https://a.example/feed'' (Some 8)) =
     ([exampleBlog 1 ''https://a.example/feed'' (Some 7) Deleted],
      \<lparr>upserted = False, modified = False, skippedDeleted = True\<rparr>) \<and>
   fst (upsertBlog 1000 [exampleBlog 1 ''https://a.example/feed'' (Some 7) Deleted]
     (exampleData ''https://b.example/feed'' (Some 8))) ! 0 =
     exampleBlog 1 ''https://a.example/feed'' (Some 7) Deleted"
  using upsertBlog_soft_delete_suppression
    [where blogs = "[exampleBlog 1 ''https://a.example/feed'' (Some 7) Deleted]"
       and data = "exampleData ''https://a.example/feed'' (Some 8)" and now = 1000]
    upsertBlog_soft_delete_suppression
    [where blogs = "[exampleBlog 1 ''https://a.example/feed'' (Some 7) Deleted]"
       and data = "exampleData ''https://b.example/feed'' (Some 8)" and now = 1000]
  by (simp add: exampleBlog_def exampleData_def)

text \<open>
  C2. Single flight: a call of \<open>runFullSync\<close> that finds the run-in-progress flag set returns
  \<open>{skipped: true}\<close> and leaves the whole state as it is: no collection is written, the flag
  stays set, and nothing is kept of the request for later.
\<close>

theorem runFullSync_single_flight:
  "isRunning p \<Longrightarrow> runFullSync e opts p = (RunSkipped, p)"
  by (simp add: runFullSync_def)

theorem runFullSync_single_flight_witness:
  "runFullSync exampleEnv exampleOptions
     \<lparr> isRunning = True, app = exampleApp (Some (exampleDb [exampleBlog 1 ''https://ok.example/feed'' None Active])) \<rparr>
   = (RunSkipped,
      \<lparr> isRunning = True, app = exampleApp (Some (exampleDb [exampleBlog 1 ''https://ok.example/feed'' None Active])) \<rparr>)"
  using runFullSync_single_flight
    [where p = "\<lparr> isRunning = True, app = exampleApp (Some (exampleDb [exampleBlog 1 ''https://ok.example/feed'' None Active])) \<rparr>"
       and e = exampleEnv and opts = exampleOptions]
  by simp

lemma runFullSync_started:
  "\<not> isRunning p \<Longrightarrow>
     runFullSync e opts p =
       (case fullSync e opts (app p) of
          Inl err \<Rightarrow> (RunFailed err, p\<lparr> isRunning := False \<rparr>)
        | Inr (ap, stats) \<Rightarrow> (RunOk stats, p\<lparr> app := ap, isRunning := False \<rparr>))"
  by (simp add: runFullSync_def split: sum.splits prod.splits)

text \<open>
  C10. A call of \<open>runFullSync\<close> that starts a run (the flag was clear) returns with the flag
  clear, never with \<open>{skipped: true}\<close>, and the next call is not rejected as already running;
  this holds on the path that returns \<open>{success: false, error}\<close> (here: no database handle)
  as on the path that returns \<open>{success: true, ...}\<close>.
\<close>

theorem runFullSync_clears_flag:
  assumes "\<not> isRunning p"
  shows "\<not> isRunning (snd (runFullSync e opts p)) \<and>
     fst (runFullSync e opts p) \<noteq> RunSkipped \<and>
     fst (runFullSync e' opts' (snd (runFullSync e opts p))) \<noteq> RunSkipped \<and>
     (blogrollDb (app p) = None \<longrightarrow> (\<exists>err. fst (runFullSync e opts p) = RunFailed err)) \<and>
     (blogrollDb (app p) \<noteq> None \<longrightarrow> (\<exists>stats. fst (runFullSync e opts p) = RunOk stats))"
proof -
  have flag: "\<not> isRunning (snd (runFullSync e opts p))" and res: "fst (runFullSync e opts p) \<noteq> RunSkipped"
    using assms by (auto simp: runFullSync_started split: sum.splits prod.splits)
  have "\<not> isRunning (snd (runFullSync e opts p)) \<Longrightarrow>
      fst (runFullSync e' opts' (snd (runFullSync e opts p))) \<noteq> RunSkipped"
    by (auto simp: runFullSync_started split: sum.splits prod.splits)
  with flag have next_run: "fst (runFullSync e' opts' (snd (runFullSync e opts p))) \<noteq> RunSkipped"
    by blast
  have fail: "blogrollDb (app p) = None \<longrightarrow> (\<exists>err. fst (runFullSync e opts p) = RunFailed err)"
    using assms by (simp add: runFullSync_started fullSync_def)
  have ok: "blogrollDb (app p) \<noteq> None \<longrightarrow> (\<exists>stats. fst (runFullSync e opts p) = RunOk stats)"
    using assms by (auto simp: runFullSync_started fullSync_def Let_def split: prod.splits)
  from flag res next_run fail ok show ?thesis by blast
qed

theorem runFullSync_clears_flag_witness:
  "\<not> isRunning (snd (runFullSync exampleEnv exampleOptions \<lparr> isRunning = False, app = exampleApp None \<rparr>)) \<and>
   (\<exists>err. fst (runFullSync exampleEnv exampleOptions \<lparr> isRunning = False, app = exampleApp None \<rparr>)
      = RunFailed err) \<and>
   fst (runFullSync exampleEnv exampleOptions
     (snd (runFullSync exampleEnv exampleOptions \<lparr> isRunning = False, app = exampleApp None \<rparr>)))
     \<noteq> RunSkipped \<and>
   \<not> isRunning (snd (runFullSync exampleEnv exampleOptions
     \<lparr> isRunning = False, app = exampleApp (Some (exampleDb [])) \<rparr>)) \<and>
   (\<exists>stats. fst (runFullSync exampleEnv exampleOptions
     \<lparr> isRunning = False, app = exampleApp (Some (exampleDb [])) \<rparr>) = RunOk stats)"
  using runFullSync_clears_flag
    [where p = "\<lparr> isRunning = False, app = exampleApp None \<rparr>" and e = exampleEnv
       and opts = exampleOptions and e' = exampleEnv and opts' = exampleOptions]
    runFullSync_clears_flag
    [where p = "\<lparr> isRunning = False, app = exampleApp (Some (exampleDb [])) \<rparr>" and e = exampleEnv
       and opts = exampleOptions and e' = exampleEnv and opts' = exampleOptions]
  by (simp add: exampleApp_def)

lemma deleteOldItems_date_items:
  "fst (deleteOldItems now d its) = filter (\<lambda>i. \<not> ltDate (published i) (cutoff now d)) its"
  by (simp add: deleteOldItems_def)

lemma ltDate_iff: "ltDate s c \<longleftrightarrow> (\<exists>t. s = DateObj t \<and> t < c)"
  by (cases s) auto

text \<open>
  C6. The retention sweep on an item as \<open>syncBlogItems\<close> stores it: \<open>published\<close> is the ISO
  string of an instant far before the cutoff, and \<open>deleteOldItems\<close> deletes nothing. (The
  claim asks for every item published before the cutoff to be deleted.)
\<close>

theorem deleteOldItems_keeps_string_dates:
  "instant (published (hd (fst (upsertItem 1000 []
      (normalizeItem exampleEnv ''https://ok.example/feed'' 1 (exampleEntry ''p1'' 5000))))))
     < cutoff 1000000000 7 \<and>
   deleteOldItems 1000000000 7
     (fst (upsertItem 1000 []
        (normalizeItem exampleEnv ''https://ok.example/feed'' 1 (exampleEntry ''p1'' 5000))))
   = (fst (upsertItem 1000 []
        (normalizeItem exampleEnv ''https://ok.example/feed'' 1 (exampleEntry ''p1'' 5000))), 0)"
  by (simp add: upsertItem_def newItem_def setItemFields_def normalizeItem_def exampleEntry_def
      deleteOldItems_def cutoff_def)

lemma setFields_simps [simp]:
  "category (setFields now data b) = d_category data"
  "feedUrl (setFields now data b) = feedUrl b"
  "blog_id (setFields now data b) = blog_id b"
  "sourceId (setFields now data b) = d_sourceId data"
  "status (setFields now data b) = (case d_status data of None \<Rightarrow> status b | Some s \<Rightarrow> s)"
  by (simp_all add: setFields_def)

lemma insertDefaults_simps [simp]:
  "feedUrl (insertDefaults i now data) = d_feedUrl data"
  "blog_id (insertDefaults i now data) = i"
  "status (insertDefaults i now data) = Active"
  by (simp_all add: insertDefaults_def)

lemma updateFirst_set:
  "y \<in> set (updateFirst P f xs) \<Longrightarrow> y \<in> set xs \<or> (\<exists>x\<in>set xs. P x \<and> y = f x)"
  by (induction xs) (auto split: if_splits)

lemma upsertBlog_docs:
  assumes "b \<in> set (fst (upsertBlog now bs data))"
  shows "b \<in> set bs \<or> (category b = d_category data \<and> feedUrl b = d_feedUrl data)"
proof (cases "List.find (\<lambda>b. feedUrl b = d_feedUrl data \<and> status b = Deleted) bs")
  case (Some d)
  with assms show ?thesis by (simp add: upsertBlog_def)
next
  case None
  show ?thesis
  proof (cases "List.find (blogFilter data) bs")
    case (Some m)
    with None assms have "b \<in> set (updateFirst (blogFilter data) (setFields now data) bs)"
      by (simp add: upsertBlog_def)
    then have "b \<in> set bs \<or> (\<exists>x\<in>set bs. blogFilter data x \<and> b = setFields now data x)"
      by (rule updateFirst_set)
    then show ?thesis by (auto simp: blogFilter_def)
  next
    case nomatch: None
    with None assms show ?thesis by (auto simp: upsertBlog_def)
  qed
qed

lemma upsertAll_docs:
  "b \<in> set (fst (upsertAll now ds acc)) \<Longrightarrow>
     b \<in> set (fst acc) \<or> (\<exists>d\<in>set ds. category b = d_category d \<and> feedUrl b = d_feedUrl d)"
proof (induction ds arbitrary: acc)
  case Nil
  then show ?case by simp
next
  case (Cons d ds)
  obtain bs a u where acc: "acc = (bs, a, u)" by (cases acc) auto
  obtain bs' r where step: "upsertBlog now bs d = (bs', r)" by (cases "upsertBlog now bs d") auto
  from Cons.prems acc step
  have "b \<in> set bs' \<or> (\<exists>d\<in>set ds. category b = d_category d \<and> feedUrl b = d_feedUrl d)"
    using Cons.IH [of "(bs', if upserted r then a + 1 else a,
        if \<not> upserted r \<and> modified r then u + 1 else u)"]
    by simp
  moreover have "b \<in> set bs' \<Longrightarrow> b \<in> set bs \<or> (category b = d_category d \<and> feedUrl b = d_feedUrl d)"
    using upsertBlog_docs [of b now bs d] step by simp
  ultimately show ?case using acc by auto
qed

lemma updateMany_length [simp]: "length (updateMany P f xs) = length xs"
  by (simp add: updateMany_def)

lemma updateMany_nth: "i < length xs \<Longrightarrow> updateMany P f xs ! i = (if P (xs ! i) then f (xs ! i) else xs ! i)"
  by (simp add: updateMany_def)

lemma currentFeeds_no_channels:
  "(case orNull (channelFilter src) of None \<Rightarrow> chans | Some u \<Rightarrow> filter (\<lambda>ch. ch_uid ch = u) chans) = []
   \<Longrightarrow> currentFeeds src chans feeds = []"
  by (simp add: currentFeeds_def)

lemma syncMicrosubSource_blogs:
  assumes "microsub_channels ap = Some chans" and "microsub_feeds ap = Some feeds"
  shows "blogrollBlogs (fst (syncMicrosubSource e now ap db src)) =
     (if map (\<lambda>cf. mf_id (snd cf)) (currentFeeds src chans feeds) \<noteq> []
      then updateMany (isOrphan src (map (\<lambda>cf. mf_id (snd cf)) (currentFeeds src chans feeds)))
             (softDelete now)
             (fst (upsertAll now (map (microsubData e src) (currentFeeds src chans feeds))
                (blogrollBlogs db, 0, 0)))
      else blogrollBlogs db)"
proof (cases "(case orNull (channelFilter src) of None \<Rightarrow> chans
     | Some u \<Rightarrow> filter (\<lambda>ch. ch_uid ch = u) chans) = []")
  case True
  then show ?thesis
    using assms currentFeeds_no_channels [OF True, of feeds]
    by (simp add: syncMicrosubSource_def)
next
  case False
  then show ?thesis
    using assms
    by (simp add: syncMicrosubSource_def Let_def split: prod.splits)
qed

text \<open>
  C5 (amended). With the Microsub collections present, let \<open>ids\<close> be the ids of the feeds of
  the mirrored channels and \<open>bs\<close> the blog collection after the sync's upserts. When \<open>ids\<close>
  is empty the sync leaves the blog collection as it was. Otherwise the orphan pass sets
  \<open>status\<close> to \<open>deleted\<close> and \<open>hidden\<close> on exactly the documents of \<open>bs\<close> whose \<open>source\<close> is
  \<open>microsub\<close>, whose \<open>sourceId\<close> is this source, whose \<open>status\<close> is not \<open>deleted\<close> and whose
  \<open>microsubFeedId\<close> is outside \<open>ids\<close> or absent, and leaves every other document as it is.
\<close>

theorem syncMicrosubSource_orphans:
  assumes "microsub_channels ap = Some chans" and "microsub_feeds ap = Some feeds"
    and "ids = map (\<lambda>cf. mf_id (snd cf)) (currentFeeds src chans feeds)"
    and "bs = fst (upsertAll now (map (microsubData e src) (currentFeeds src chans feeds))
           (blogrollBlogs db, 0, 0))"
    and "final = blogrollBlogs (fst (syncMicrosubSource e now ap db src))"
  shows "(ids = [] \<longrightarrow> final = blogrollBlogs db) \<and>
     (ids \<noteq> [] \<longrightarrow> length final = length bs \<and>
        (\<forall>i<length bs.
           final ! i =
             (if source (bs ! i) = Some ''microsub'' \<and>
                 sourceId (bs ! i) = Some (source_id src) \<and>
                 status (bs ! i) \<noteq> Deleted \<and>
                 (\<forall>f. microsubFeedId (bs ! i) = Some f \<longrightarrow> f \<notin> set ids)
              then (bs ! i)\<lparr> status := Deleted, hidden := True,
                              deletedAt := Some now, updatedAt := now \<rparr>
              else bs ! i)))"
proof -
  have orphan: "\<And>b. isOrphan src ids b \<longleftrightarrow>
      source b = Some ''microsub'' \<and> sourceId b = Some (source_id src) \<and>
      status b \<noteq> Deleted \<and> (\<forall>f. microsubFeedId b = Some f \<longrightarrow> f \<notin> set ids)"
    by (auto simp add: isOrphan_def split: option.splits)
  have final: "final = (if ids \<noteq> [] then updateMany (isOrphan src ids) (softDelete now) bs
       else blogrollBlogs db)"
    using assms(3-5) syncMicrosubSource_blogs [OF assms(1,2), of e now db src] by simp
  show ?thesis
    unfolding final by (auto simp add: updateMany_nth softDelete_def orphan)
qed

theorem syncMicrosubSource_orphans_counterexample:
  "source (mirrorBlog 1 ''https://gone.example/feed'' 3 ''f1'') = Some ''microsub'' \<and>
   sourceId (mirrorBlog 1 ''https://gone.example/feed'' 3 ''f1'')
     = Some (source_id (exampleSource 3 Microsub)) \<and>
   microsubFeedId (mirrorBlog 1 ''https://gone.example/feed'' 3 ''f1'') = Some ''f1'' \<and>
   status (mirrorBlog 1 ''https://gone.example/feed'' 3 ''f1'') = Active \<and>
   microsub_feeds (microsubApp []) = Some [] \<and>
   blogrollBlogs (fst (syncMicrosubSource exampleEnv 1000 (microsubApp [])
      (exampleDb [mirrorBlog 1 ''https://gone.example/feed'' 3 ''f1'']) (exampleSource 3 Microsub)))
   = [mirrorBlog 1 ''https://gone.example/feed'' 3 ''f1'']"
  by (simp add: syncMicrosubSource_def microsubApp_def exampleSource_def orNull_def
      currentFeeds_def exampleDb_def mirrorBlog_def exampleBlog_def)

theorem syncMicrosubSource_orphans_witness:
  "map status (blogrollBlogs (fst (syncMicrosubSource exampleEnv 1000
      (microsubApp [exampleMicrosubFeed ''f2'' ''https://kept.example/feed''])
      (exampleDb [mirrorBlog 1 ''https://gone.example/feed'' 3 ''f1'',
                  mirrorBlog 2 ''https://kept.example/feed'' 3 ''f2'',
                  mirrorBlog 3 ''https://other.example/feed'' 4 ''f9'',
                  exampleBlog 4 ''https://manual.example/feed'' None Active,
                  (mirrorBlog 5 ''https://noid.example/feed'' 3 ''f5'')\<lparr> microsubFeedId := None \<rparr>])
      (exampleSource 3 Microsub)))) = [Deleted, Active, Active, Active, Deleted]"
proof -
  let ?ap = "microsubApp [exampleMicrosubFeed ''f2'' ''https://kept.example/feed'']"
  let ?db = "exampleDb [mirrorBlog 1 ''https://gone.example/feed'' 3 ''f1'',
                  mirrorBlog 2 ''https://kept.example/feed'' 3 ''f2'',
                  mirrorBlog 3 ''https://other.example/feed'' 4 ''f9'',
                  exampleBlog 4 ''https://manual.example/feed'' None Active,
                  (mirrorBlog 5 ''https://noid.example/feed'' 3 ''f5'')\<lparr> microsubFeedId := None \<rparr>]"
  let ?src = "exampleSource 3 Microsub"
  let ?chans = "[\<lparr> ch_id = ''c1'', ch_uid = ''news'', ch_name = ''News'' \<rparr>]"
  let ?feeds = "[exampleMicrosubFeed ''f2'' ''https://kept.example/feed'']"
  let ?ids = "map (\<lambda>cf. mf_id (snd cf)) (currentFeeds ?src ?chans ?feeds)"
  let ?bs = "fst (upsertAll 1000 (map (microsubData exampleEnv ?src) (currentFeeds ?src ?chans ?feeds))
           (blogrollBlogs ?db, 0, 0))"
  let ?final = "blogrollBlogs (fst (syncMicrosubSource exampleEnv 1000 ?ap ?db ?src))"
  have ids: "?ids = [''f2'']"
    by (simp add: currentFeeds_def exampleSource_def orNull_def exampleMicrosubFeed_def)
  have bs: "map (\<lambda>b. (source b, sourceId b, status b, microsubFeedId b)) ?bs =
      [(Some ''microsub'', Some 3, Active, Some ''f1''),
       (Some ''microsub'', Some 3, Active, Some ''f2''),
       (Some ''microsub'', Some 4, Active, Some ''f9''),
       (None, None, Active, None),
       (Some ''microsub'', Some 3, Active, None)]"
    by (simp add: currentFeeds_def exampleSource_def orNull_def exampleMicrosubFeed_def
        microsubData_def exampleDb_def upsertBlog_def blogFilter_def mirrorBlog_def
        exampleBlog_def setFields_def)
  have len: "length ?bs = 5"
    using arg_cong [OF bs, of length] by simp
  have nth: "(source (?bs ! i), sourceId (?bs ! i), status (?bs ! i), microsubFeedId (?bs ! i))
      = [(Some ''microsub'', Some 3, Active, Some ''f1''),
       (Some ''microsub'', Some 3, Active, Some ''f2''),
       (Some ''microsub'', Some 4, Active, Some ''f9''),
       (None, None, Active, None),
       (Some ''microsub'', Some 3, Active, None)] ! i" if "i < 5" for i
    using that arg_cong [OF bs, of "\<lambda>xs. xs ! i"] len by (simp del: nth_Cons_numeral)
  have "(?ids = [] \<longrightarrow> ?final = blogrollBlogs ?db) \<and>
     (?ids \<noteq> [] \<longrightarrow> length ?final = length ?bs \<and>
        (\<forall>i<length ?bs.
           ?final ! i =
             (if source (?bs ! i) = Some ''microsub'' \<and>
                 sourceId (?bs ! i) = Some (source_id ?src) \<and>
                 status (?bs ! i) \<noteq> Deleted \<and>
                 (\<forall>f. microsubFeedId (?bs ! i) = Some f \<longrightarrow> f \<notin> set ?ids)
              then (?bs ! i)\<lparr> status := Deleted, hidden := True,
                              deletedAt := Some 1000, updatedAt := 1000 \<rparr>
              else ?bs ! i)))"
    by (rule syncMicrosubSource_orphans [where chans = ?chans and feeds = ?feeds])
       (simp_all add: microsubApp_def)
  then have lenf: "length ?final = 5"
    and each: "\<And>i. i < 5 \<Longrightarrow>
           ?final ! i =
             (if source (?bs ! i) = Some ''microsub'' \<and>
                 sourceId (?bs ! i) = Some (source_id ?src) \<and>
                 status (?bs ! i) \<noteq> Deleted \<and>
                 (\<forall>f. microsubFeedId (?bs ! i) = Some f \<longrightarrow> f \<notin> set ?ids)
              then (?bs ! i)\<lparr> status := Deleted, hidden := True,
                              deletedAt := Some 1000, updatedAt := 1000 \<rparr>
              else ?bs ! i)"
    using ids len by simp_all
  have sid: "source_id ?src = 3" by (simp add: exampleSource_def)
  have f0: "status (?final ! 0) = Deleted"
    using each [of 0] nth [of 0] by (simp add: ids sid)
  have f1: "status (?final ! 1) = Active"
    using each [of 1] nth [of 1] by (simp add: ids sid)
  have f2: "status (?final ! 2) = Active"
    using each [of 2] nth [of 2] by (simp add: ids sid)
  have f3: "status (?final ! 3) = Active"
    using each [of 3] nth [of 3] by (simp add: ids sid)
  have f4: "status (?final ! 4) = Deleted"
    using each [of 4] nth [of 4] by (simp add: ids sid)
  have "map status ?final = [Deleted, Active, Active, Active, Deleted]"
    using lenf f0 f1 f2 f3 f4
    by (simp add: list_eq_iff_nth_eq nth_Cons' less_Suc_eq eval_nat_numeral)
  then show ?thesis .
qed

lemma updateFirst_keys_subset:
  assumes "\<forall>x\<in>set xs. P x \<longrightarrow> nd x \<and> k (f x) = k x"
  shows "set (map k (filter nd (updateFirst P f xs))) \<subseteq> set (map k (filter nd xs))"
  using assms by (induction xs) auto

lemma updateFirst_distinct_key:
  assumes "distinct (map k (filter nd xs))"
    and "\<forall>x\<in>set xs. P x \<longrightarrow> nd x \<and> k (f x) = k x"
  shows "distinct (map k (filter nd (updateFirst P f xs)))"
  using assms
proof (induction xs)
  case Nil
  then show ?case by simp
next
  case (Cons x xs)
  show ?case
  proof (cases "P x")
    case True
    with Cons.prems show ?thesis by auto
  next
    case False
    from Cons.prems have sub: "set (map k (filter nd (updateFirst P f xs))) \<subseteq> set (map k (filter nd xs))"
      by (intro updateFirst_keys_subset) simp
    from Cons.prems have "distinct (map k (filter nd xs))"
      by (simp split: if_splits)
    with Cons have "distinct (map k (filter nd (updateFirst P f xs)))" by simp
    with False Cons.prems sub show ?thesis by auto
  qed
qed

lemma find_deleted_None:
  "List.find (\<lambda>b. feedUrl b = u \<and> status b = Deleted) bs = None \<Longrightarrow>
     x \<in> set bs \<Longrightarrow> feedUrl x = u \<Longrightarrow> status x \<noteq> Deleted"
  by (auto simp: find_None_iff)

lemma upsertBlog_cases:
  obtains (skipped) "upsertBlog now bs data = (bs, \<lparr>upserted = False, modified = False, skippedDeleted = True\<rparr>)"
  | (updated) m where "List.find (\<lambda>b. feedUrl b = d_feedUrl data \<and> status b = Deleted) bs = None"
      "List.find (blogFilter data) bs = Some m"
      "fst (upsertBlog now bs data) = updateFirst (blogFilter data) (setFields now data) bs"
  | (inserted) "List.find (\<lambda>b. feedUrl b = d_feedUrl data \<and> status b = Deleted) bs = None"
      "List.find (blogFilter data) bs = None"
      "fst (upsertBlog now bs data) =
         bs @ [setFields now data (insertDefaults (freshId (map blog_id bs)) now data)]"
proof (cases "List.find (\<lambda>b. feedUrl b = d_feedUrl data \<and> status b = Deleted) bs")
  case (Some d)
  then show ?thesis using skipped by (simp add: upsertBlog_def)
next
  case None
  show ?thesis
  proof (cases "List.find (blogFilter data) bs")
    case (Some m)
    with None show ?thesis using updated by (simp add: upsertBlog_def)
  next
    case nomatch: None
    with None show ?thesis using inserted by (simp add: upsertBlog_def)
  qed
qed

lemma upsertBlog_uniqueFeedKey:
  assumes "uniqueFeedKey bs" and "d_sourceId data \<noteq> None"
  shows "uniqueFeedKey (fst (upsertBlog now bs data))"
proof (cases rule: upsertBlog_cases [of now bs data])
  case skipped
  with assms show ?thesis by simp
next
  case (updated m)
  have "\<forall>x\<in>set bs. blogFilter data x \<longrightarrow>
      status x \<noteq> Deleted \<and> feedKey (setFields now data x) = feedKey x"
    using find_deleted_None [OF updated(1)] assms(2)
    by (auto simp: blogFilter_def feedKey_def)
  with assms(1) updated(3) show ?thesis
    unfolding uniqueFeedKey_def nonDeleted_def
    by (simp add: updateFirst_distinct_key)
next
  case inserted
  from inserted(2) assms(2) have "\<forall>x\<in>set bs. feedKey x \<noteq> (d_feedUrl data, d_sourceId data)"
    by (auto simp: find_None_iff blogFilter_def feedKey_def)
  with assms(1) inserted(3) show ?thesis
    unfolding uniqueFeedKey_def nonDeleted_def
    by (auto simp: feedKey_def)
qed

lemma upsertBlog_uniqueFeedUrl:
  assumes "uniqueFeedUrl bs"
    and "\<forall>b\<in>set bs. feedUrl b = d_feedUrl data \<and> status b \<noteq> Deleted \<longrightarrow> sourceId b = d_sourceId data"
  shows "uniqueFeedUrl (fst (upsertBlog now bs data))"
proof (cases rule: upsertBlog_cases [of now bs data])
  case skipped
  with assms show ?thesis by simp
next
  case (updated m)
  have "\<forall>x\<in>set bs. blogFilter data x \<longrightarrow>
      status x \<noteq> Deleted \<and> feedUrl (setFields now data x) = feedUrl x"
    using find_deleted_None [OF updated(1)]
    by (auto simp: blogFilter_def)
  with assms(1) updated(3) show ?thesis
    unfolding uniqueFeedUrl_def nonDeleted_def
    by (simp add: updateFirst_distinct_key)
next
  case inserted
  from inserted(2) have "\<forall>x\<in>set bs. \<not> blogFilter data x"
    by (auto simp: find_None_iff)
  with assms(2) have "\<forall>x\<in>set bs. status x \<noteq> Deleted \<longrightarrow> feedUrl x \<noteq> d_feedUrl data"
    by (auto simp: blogFilter_def split: option.splits)
  with assms(1) inserted(3) show ?thesis
    unfolding uniqueFeedUrl_def nonDeleted_def
    by auto
qed

lemma getBlogByFeedUrl_None:
  "getBlogByFeedUrl bs u = None \<Longrightarrow> \<forall>b\<in>set bs. feedUrl b = u \<longrightarrow> status b = Deleted"
  by (auto simp: getBlogByFeedUrl_def find_None_iff)

lemma webhookSubscribe_unique:
  "(uniqueFeedKey bs \<longrightarrow> uniqueFeedKey (fst (webhookSubscribe e now bs url ch t))) \<and>
   (uniqueFeedUrl bs \<longrightarrow> uniqueFeedUrl (fst (webhookSubscribe e now bs url ch t)))"
proof (cases "getBlogByFeedUrl bs url")
  case (Some existing)
  then show ?thesis by (simp add: webhookSubscribe_def)
next
  case None
  let ?data = "\<lparr> d_title = (case orNull t of None \<Rightarrow> extractDomainFromUrl e url | Some x \<Rightarrow> x),
               d_feedUrl = url, d_siteUrl = extractSiteUrl e url, d_feedType = ''rss'',
               d_category = (case orNull ch of None \<Rightarrow> ''Microsub'' | Some c \<Rightarrow> c),
               d_sourceId = None, d_source = Some ''microsub-webhook'',
               d_microsubFeedId = None, d_microsubChannelId = None,
               d_microsubChannelName = None, d_skipItemFetch = None, d_photo = None,
               d_lastFetchAt = None, d_status = Some Pending \<rparr>"
  have res: "fst (webhookSubscribe e now bs url ch t) = fst (upsertBlog now bs ?data)"
    using None by (simp add: webhookSubscribe_def)
  have del: "\<forall>b\<in>set bs. feedUrl b = url \<longrightarrow> status b = Deleted"
    using getBlogByFeedUrl_None [OF None] .
  have url: "uniqueFeedUrl bs \<longrightarrow> uniqueFeedUrl (fst (upsertBlog now bs ?data))"
    using del by (auto intro!: upsertBlog_uniqueFeedUrl)
  have key: "uniqueFeedKey bs \<longrightarrow> uniqueFeedKey (fst (upsertBlog now bs ?data))"
  proof (cases rule: upsertBlog_cases [of now bs ?data])
    case skipped
    then show ?thesis by simp
  next
    case (updated m)
    then have "m \<in> set bs \<and> feedUrl m = url \<and> status m \<noteq> Deleted"
      using find_deleted_None [OF updated(1), of m]
      by (auto simp: find_Some_iff blogFilter_def)
    with del show ?thesis by blast
  next
    case inserted
    from del have "\<forall>x\<in>set bs. status x \<noteq> Deleted \<longrightarrow> feedKey x \<noteq> (url, None)"
      by (auto simp: feedKey_def)
    with inserted(3) show ?thesis
      unfolding uniqueFeedKey_def nonDeleted_def
      by (auto simp: feedKey_def)
  qed
  from res url key show ?thesis by simp
qed

lemma create_unique:
  "(uniqueFeedKey bs \<longrightarrow> uniqueFeedKey (fst (create now bs form))) \<and>
   (uniqueFeedUrl bs \<longrightarrow> uniqueFeedUrl (fst (create now bs form)))"
proof (cases "f_feedUrl form = [] \<or> getBlogByFeedUrl bs (f_feedUrl form) \<noteq> None")
  case True
  then show ?thesis by (auto simp: create_def)
next
  case False
  then have none: "getBlogByFeedUrl bs (f_feedUrl form) = None" by simp
  have del: "\<forall>b\<in>set bs. feedUrl b = f_feedUrl form \<longrightarrow> status b = Deleted"
    using getBlogByFeedUrl_None [OF none] .
  from False obtain blog where res: "fst (create now bs form) = bs @ [blog]" and
    u: "feedUrl blog = f_feedUrl form"
    by (auto simp: create_def createBlog_def Let_def)
  from del u have "\<forall>x\<in>set bs. status x \<noteq> Deleted \<longrightarrow> feedUrl x \<noteq> feedUrl blog \<and> feedKey x \<noteq> feedKey blog"
    by (auto simp: feedKey_def)
  with res show ?thesis
    unfolding uniqueFeedKey_def uniqueFeedUrl_def nonDeleted_def
    by auto
qed

text \<open>
  C7 (amended). The key of \<open>upsertBlog\<close> is the feed URL together with the source id. At most
  one non-deleted blog per feed URL and source id is preserved by \<open>upsertBlog\<close> for every
  candidate that carries a source id (as every adapter's does), by the webhook's subscribe
  path and by the controller's create path (duplicate check, then \<open>createBlog\<close>). At most one
  non-deleted blog per feed URL is preserved by the webhook's subscribe path and by the
  create path, and by \<open>upsertBlog\<close> as long as the non-deleted blogs with the candidate's
  feed URL belong to the candidate's source.
\<close>

theorem blog_uniqueness_preserved:
  "(uniqueFeedKey bs \<and> d_sourceId data \<noteq> None \<longrightarrow> uniqueFeedKey (fst (upsertBlog now bs data))) \<and>
   (uniqueFeedUrl bs \<and>
      (\<forall>b\<in>set bs. feedUrl b = d_feedUrl data \<and> status b \<noteq> Deleted \<longrightarrow> sourceId b = d_sourceId data)
      \<longrightarrow> uniqueFeedUrl (fst (upsertBlog now bs data))) \<and>
   (uniqueFeedKey bs \<longrightarrow> uniqueFeedKey (fst (webhookSubscribe e now bs url ch t))) \<and>
   (uniqueFeedUrl bs \<longrightarrow> uniqueFeedUrl (fst (webhookSubscribe e now bs url ch t))) \<and>
   (uniqueFeedKey bs \<longrightarrow> uniqueFeedKey (fst (create now bs form))) \<and>
   (uniqueFeedUrl bs \<longrightarrow> uniqueFeedUrl (fst (create now bs form)))"
  using upsertBlog_uniqueFeedKey [of bs data now] upsertBlog_uniqueFeedUrl [of bs data now]
    webhookSubscribe_unique [of bs e now url ch t] create_unique [of bs now form]
  by blast

theorem blog_uniqueness_counterexample:
  "uniqueFeedUrl [] \<and>
   \<not> uniqueFeedUrl (fst (upsertBlog 2000
        (fst (upsertBlog 1000 [] (exampleData ''https://a.example/feed'' (Some 1))))
        (exampleData ''https://a.example/feed'' (Some 2))))"
  by (simp add: uniqueFeedUrl_def nonDeleted_def upsertBlog_def blogFilter_def exampleData_def)

theorem blog_uniqueness_preserved_witness:
  "uniqueFeedKey (fst (upsertBlog 1000 [] (exampleData ''https://a.example/feed'' (Some 1)))) \<and>
   uniqueFeedKey (fst (upsertBlog 2000
        (fst (upsertBlog 1000 [] (exampleData ''https://a.example/feed'' (Some 1))))
        (exampleData ''https://a.example/feed'' (Some 2)))) \<and>
   uniqueFeedUrl (fst (upsertBlog 2000
        (fst (upsertBlog 1000 [] (exampleData ''https://a.example/feed'' (Some 1))))
        (exampleData ''https://a.example/feed'' (Some 1)))) \<and>
   uniqueFeedUrl (fst (webhookSubscribe exampleEnv 1000 [] ''https://a.example/feed'' None None)) \<and>
   uniqueFeedUrl (fst (create 1000 []
      \<lparr> f_feedUrl = ''https://a.example/feed'', f_title = [], f_siteUrl = [], f_category = [],
        f_tags = [], f_blogNotes = [], f_pinned = False, f_hidden = False \<rparr>))"
proof -
  let ?d1 = "exampleData ''https://a.example/feed'' (Some 1)"
  let ?d2 = "exampleData ''https://a.example/feed'' (Some 2)"
  let ?bs1 = "fst (upsertBlog 1000 [] ?d1)"
  have e0: "uniqueFeedKey []" "uniqueFeedUrl []"
    by (simp_all add: uniqueFeedKey_def uniqueFeedUrl_def nonDeleted_def)
  have s: "d_sourceId ?d1 \<noteq> None" "d_sourceId ?d2 \<noteq> None"
    by (simp_all add: exampleData_def)
  have k1: "uniqueFeedKey ?bs1"
    using blog_uniqueness_preserved [where bs = "[]" and data = ?d1 and now = 1000] e0 s by blast
  have k2: "uniqueFeedKey (fst (upsertBlog 2000 ?bs1 ?d2))"
    using blog_uniqueness_preserved [where bs = ?bs1 and data = ?d2 and now = 2000] k1 s by blast
  have u1: "uniqueFeedUrl ?bs1"
    using blog_uniqueness_preserved [where bs = "[]" and data = ?d1 and now = 1000] e0 by simp
  have same: "\<forall>b\<in>set ?bs1. feedUrl b = d_feedUrl ?d1 \<and> status b \<noteq> Deleted \<longrightarrow> sourceId b = d_sourceId ?d1"
    by (simp add: upsertBlog_def exampleData_def)
  have u2: "uniqueFeedUrl (fst (upsertBlog 2000 ?bs1 ?d1))"
    using blog_uniqueness_preserved [where bs = ?bs1 and data = ?d1 and now = 2000] u1 same by blast
  have w: "uniqueFeedUrl (fst (webhookSubscribe exampleEnv 1000 [] ''https://a.example/feed'' None None))"
    using blog_uniqueness_preserved [where bs = "[]" and e = exampleEnv and now = 1000
        and url = "''https://a.example/feed''" and ch = None and t = None] e0 by blast
  have c: "uniqueFeedUrl (fst (create 1000 []
      \<lparr> f_feedUrl = ''https://a.example/feed'', f_title = [], f_siteUrl = [], f_category = [],
        f_tags = [], f_blogNotes = [], f_pinned = False, f_hidden = False \<rparr>))"
    using blog_uniqueness_preserved [where bs = "[]" and now = 1000 and form =
        "\<lparr> f_feedUrl = ''https://a.example/feed'', f_title = [], f_siteUrl = [], f_category = [],
        f_tags = [], f_blogNotes = [], f_pinned = False, f_hidden = False \<rparr>"] e0 by blast
  from k1 k2 u2 w c show ?thesis by blast
qed

lemma itemFilter_key: "itemFilter d i \<longleftrightarrow> itemKey i = dataKey d"
  by (auto simp: itemFilter_def itemKey_def dataKey_def)

lemma setItemFields_identity [simp]:
  "blogId (setItemFields now d i) = blogId i"
  "uid (setItemFields now d i) = uid i"
  "item_id (setItemFields now d i) = item_id i"
  "itemKey (setItemFields now d i) = itemKey i"
  "fetchedAt (setItemFields now d i) = IsoString now"
  by (simp_all add: setItemFields_def itemKey_def)

lemma newItem_identity [simp]:
  "itemKey (newItem n now d) = dataKey d"
  by (simp add: newItem_def itemKey_def dataKey_def setItemFields_def)

lemma updateFirst_map_invariant:
  assumes "\<And>x. g (f x) = g x"
  shows "map g (updateFirst P f xs) = map g xs"
  by (induction xs) (simp_all add: assms)

lemma find_itemFilter_None: "List.find (itemFilter d) its = None \<longleftrightarrow> dataKey d \<notin> set (map itemKey its)"
proof -
  have "List.find (itemFilter d) its = None \<longleftrightarrow> (\<forall>i\<in>set its. itemKey i \<noteq> dataKey d)"
    by (auto simp: find_None_iff itemFilter_key)
  then show ?thesis by force
qed

lemma map_pair_eq:
  assumes "map f xs = map f ys" and "map g xs = map g ys"
  shows "map (\<lambda>x. (f x, g x)) xs = map (\<lambda>x. (f x, g x)) ys"
proof -
  from assms(1) have len: "length xs = length ys"
    by (rule map_eq_imp_length_eq)
  have "\<forall>i<length xs. f (xs ! i) = f (ys ! i) \<and> g (xs ! i) = g (ys ! i)"
    using assms len by (metis nth_map)
  with len show ?thesis
    by (simp add: list_eq_iff_nth_eq)
qed

lemma upsertItem_present:
  assumes "dataKey d \<in> set (map itemKey its)"
  shows "\<not> ir_upserted (snd (upsertItem now its d))"
    and "map itemKey (fst (upsertItem now its d)) = map itemKey its"
    and "map item_id (fst (upsertItem now its d)) = map item_id its"
proof -
  from assms obtain i where "List.find (itemFilter d) its = Some i"
    by (cases "List.find (itemFilter d) its") (auto simp: find_itemFilter_None)
  then have r: "upsertItem now its d =
      (updateFirst (itemFilter d) (setItemFields now d) its,
       \<lparr>ir_upserted = False, ir_modified = (setItemFields now d i \<noteq> i)\<rparr>)"
    by (simp add: upsertItem_def)
  show "\<not> ir_upserted (snd (upsertItem now its d))" using r by simp
  show "map itemKey (fst (upsertItem now its d)) = map itemKey its"
    using r by (simp add: updateFirst_map_invariant)
  show "map item_id (fst (upsertItem now its d)) = map item_id its"
    using r by (simp add: updateFirst_map_invariant)
qed

lemma upsertItem_keys:
  "set (map itemKey (fst (upsertItem now its d))) = insert (dataKey d) (set (map itemKey its))"
proof (cases "dataKey d \<in> set (map itemKey its)")
  case True
  have "map itemKey (fst (upsertItem now its d)) = map itemKey its"
    by (rule upsertItem_present(2) [OF True])
  then have "set (map itemKey (fst (upsertItem now its d))) = set (map itemKey its)"
    by (rule arg_cong)
  with True show ?thesis by blast
next
  case False
  then have "List.find (itemFilter d) its = None" by (simp add: find_itemFilter_None)
  then have "fst (upsertItem now its d) = its @ [newItem (freshId (map item_id its)) now d]"
    by (simp add: upsertItem_def)
  then show ?thesis by simp
qed

lemma upsertItems_keys:
  "set (map itemKey (fst (upsertItems now ds (its, n)))) = set (map itemKey its) \<union> dataKey ` set ds"
proof (induction ds arbitrary: its n)
  case Nil
  then show ?case by simp
next
  case (Cons d ds)
  obtain its' r where step: "upsertItem now its d = (its', r)" by (cases "upsertItem now its d") auto
  have k: "set (map itemKey its') = insert (dataKey d) (set (map itemKey its))"
    using upsertItem_keys [of now its d] step by simp
  have "fst (upsertItems now (d # ds) (its, n))
      = fst (upsertItems now ds (its', if ir_upserted r then n + 1 else n))"
    using step by simp
  then have "set (map itemKey (fst (upsertItems now (d # ds) (its, n))))
      = set (map itemKey its') \<union> dataKey ` set ds"
    using Cons.IH [of its' "if ir_upserted r then n + 1 else n"] by simp
  with k show ?case by auto
qed

lemma upsertItems_present:
  assumes "dataKey ` set ds \<subseteq> set (map itemKey its)"
  shows "snd (upsertItems now ds (its, n)) = n \<and>
     map itemKey (fst (upsertItems now ds (its, n))) = map itemKey its \<and>
     map item_id (fst (upsertItems now ds (its, n))) = map item_id its"
  using assms
proof (induction ds arbitrary: its)
  case Nil
  then show ?case by simp
next
  case (Cons d ds)
  obtain its' r where step: "upsertItem now its d = (its', r)" by (cases "upsertItem now its d") auto
  from Cons.prems have present: "dataKey d \<in> set (map itemKey its)" by simp
  from upsertItem_present [OF present, of now] step
  have r: "\<not> ir_upserted r" and k: "map itemKey its' = map itemKey its"
    and i: "map item_id its' = map item_id its"
    by simp_all
  from Cons.prems k have "dataKey ` set ds \<subseteq> set (map itemKey its')" by simp
  from Cons.IH [OF this] step r k i show ?case by simp
qed

lemma syncBlogItems_ok:
  assumes "fetchFeed e (feedUrl b) = Inr feed"
  shows "syncBlogItems e now m db b =
     (db\<lparr> blogrollItems := fst (upsertItems now
              (map (normalizeItem e (feedUrl b) (blog_id b)) (take m (pf_entries feed)))
              (blogrollItems db, 0)),
           blogrollBlogs := updateBlogStatus now (blog_id b)
              (FetchOk (length (take m (pf_entries feed)))
                 (if title b = feedUrl b then pf_title feed else None)
                 (if orNull (photo b) = None then pf_photo feed else None)
                 (if orNull (siteUrl b) = None then pf_siteUrl feed else None))
              (blogrollBlogs db) \<rparr>,
      Synced (snd (upsertItems now
              (map (normalizeItem e (feedUrl b) (blog_id b)) (take m (pf_entries feed)))
              (blogrollItems db, 0)))
        (length (take m (pf_entries feed))))"
  using assms
  by (simp add: syncBlogItems_def fetchAndParseFeed_def split: prod.splits)

lemma normalizeItem_same_hash:
  "sha256hex e2 = sha256hex e1 \<Longrightarrow> normalizeItem e2 u bid en = normalizeItem e1 u bid en"
  by (simp add: normalizeItem_def)

lemma updateFirst_index:
  assumes "j < length xs" and "P (xs ! j)" and "\<forall>k<j. \<not> P (xs ! k)"
  shows "updateFirst P f xs = xs[j := f (xs ! j)]"
  using assms
proof (induction xs arbitrary: j)
  case Nil
  then show ?case by simp
next
  case (Cons x xs)
  show ?case
  proof (cases j)
    case 0
    with Cons.prems show ?thesis by simp
  next
    case (Suc n)
    with Cons.prems have nx: "\<not> P x" by auto
    from Suc Cons.prems have "n < length xs" and "P (xs ! n)" and "\<forall>k<n. \<not> P (xs ! k)"
      by auto
    from Cons.IH [OF this] nx Suc show ?thesis by simp
  qed
qed

text \<open>
  C4. Two syncs of a blog whose feed returns the same content: the second one inserts no
  item (\<open>added\<close> is 0) and leaves the \<open>_id\<close>, \<open>blogId\<close> and \<open>uid\<close> of every stored item as
  they are. An item's \<open>uid\<close> is computed from the feed URL and the entry's natural id alone.
  An \<open>upsertItem\<close> whose \<open>(blogId, uid)\<close> matches a stored item reports \<open>upserted = false\<close>;
  the collection it leaves is the old one with the first matching item, at its place,
  carrying the data's \<open>url\<close>, \<open>title\<close>, \<open>content\<close>, \<open>summary\<close>, \<open>published\<close>, \<open>updated\<close>,
  \<open>author\<close>, \<open>photo\<close> and \<open>categories\<close> and the time of the call as \<open>fetchedAt\<close>; the
  \<open>_id\<close>, \<open>blogId\<close> and \<open>uid\<close> of every item are as before.
\<close>

theorem syncBlogItems_idempotent:
  "(fetchFeed e1 (feedUrl b) = Inr feed \<and> fetchFeed e2 (feedUrl b) = Inr feed \<and>
      sha256hex e2 = sha256hex e1 \<longrightarrow>
      snd (syncBlogItems e2 now2 m (fst (syncBlogItems e1 now1 m db b)) b)
        = Synced 0 (length (take m (pf_entries feed))) \<and>
      map (\<lambda>i. (item_id i, blogId i, uid i))
          (blogrollItems (fst (syncBlogItems e2 now2 m (fst (syncBlogItems e1 now1 m db b)) b)))
        = map (\<lambda>i. (item_id i, blogId i, uid i)) (blogrollItems (fst (syncBlogItems e1 now1 m db b)))) \<and>
   (e_id en = e_id en' \<longrightarrow>
      x_uid (normalizeItem e1 u bid en) = x_uid (normalizeItem e1 u bid' en')) \<and>
   (List.find (\<lambda>i. blogId i = x_blogId d \<and> uid i = x_uid d) its = Some it \<longrightarrow>
      (\<exists>j<length its.
         its ! j = it \<and> (\<forall>k<j. \<not> (blogId (its ! k) = x_blogId d \<and> uid (its ! k) = x_uid d)) \<and>
         fst (upsertItem now its d) =
           its[j := it\<lparr> i_url := x_url d, i_title := x_title d, i_html := x_html d,
                        i_plain := x_plain d, i_summary := x_summary d,
                        published := x_published d, updated := x_updated d,
                        i_author := x_author d, i_photo := x_photo d,
                        i_categories := x_categories d, fetchedAt := IsoString now \<rparr>]) \<and>
      \<not> ir_upserted (snd (upsertItem now its d)) \<and>
      map (\<lambda>i. (item_id i, blogId i, uid i)) (fst (upsertItem now its d))
        = map (\<lambda>i. (item_id i, blogId i, uid i)) its)"
proof (intro conjI impI)
  assume a: "fetchFeed e1 (feedUrl b) = Inr feed \<and> fetchFeed e2 (feedUrl b) = Inr feed \<and>
      sha256hex e2 = sha256hex e1"
  let ?ds = "map (normalizeItem e1 (feedUrl b) (blog_id b)) (take m (pf_entries feed))"
  let ?db1 = "fst (syncBlogItems e1 now1 m db b)"
  from a have h: "sha256hex e2 = sha256hex e1" by simp
  have ds2: "map (normalizeItem e2 (feedUrl b) (blog_id b)) (take m (pf_entries feed)) = ?ds"
    by (simp add: normalizeItem_same_hash [OF h])
  have its1: "blogrollItems ?db1 = fst (upsertItems now1 ?ds (blogrollItems db, 0))"
    using a by (simp add: syncBlogItems_ok)
  have "dataKey ` set ?ds \<subseteq> set (map itemKey (blogrollItems ?db1))"
    unfolding its1 using upsertItems_keys [of now1 ?ds "blogrollItems db" 0] by blast
  from upsertItems_present [OF this, of now2 0]
  have second: "snd (upsertItems now2 ?ds (blogrollItems ?db1, 0)) = 0"
    "map itemKey (fst (upsertItems now2 ?ds (blogrollItems ?db1, 0))) = map itemKey (blogrollItems ?db1)"
    "map item_id (fst (upsertItems now2 ?ds (blogrollItems ?db1, 0))) = map item_id (blogrollItems ?db1)"
    by simp_all
  from a have f2: "fetchFeed e2 (feedUrl b) = Inr feed" by simp
  note ok2 = syncBlogItems_ok [OF f2, of now2 m ?db1, unfolded ds2]
  show "snd (syncBlogItems e2 now2 m ?db1 b) = Synced 0 (length (take m (pf_entries feed)))"
    unfolding ok2 using second(1) by simp
  have its2: "blogrollItems (fst (syncBlogItems e2 now2 m ?db1 b))
      = fst (upsertItems now2 ?ds (blogrollItems ?db1, 0))"
    unfolding ok2 by simp
  have "map (\<lambda>i. (item_id i, itemKey i)) (fst (upsertItems now2 ?ds (blogrollItems ?db1, 0)))
      = map (\<lambda>i. (item_id i, itemKey i)) (blogrollItems ?db1)"
    using second(2,3) by (intro map_pair_eq)
  then show "map (\<lambda>i. (item_id i, blogId i, uid i))
          (blogrollItems (fst (syncBlogItems e2 now2 m ?db1 b)))
        = map (\<lambda>i. (item_id i, blogId i, uid i)) (blogrollItems ?db1)"
    unfolding its2 by (simp add: itemKey_def)
next
  assume "e_id en = e_id en'"
  then show "x_uid (normalizeItem e1 u bid en) = x_uid (normalizeItem e1 u bid' en')"
    by (simp add: normalizeItem_def)
next
  assume "List.find (\<lambda>i. blogId i = x_blogId d \<and> uid i = x_uid d) its = Some it"
  then have found: "List.find (itemFilter d) its = Some it"
    by (simp add: itemFilter_def [abs_def])
  then have r: "upsertItem now its d =
        (updateFirst (itemFilter d) (setItemFields now d) its,
         \<lparr>ir_upserted = False, ir_modified = (setItemFields now d it \<noteq> it)\<rparr>)"
    by (simp add: upsertItem_def)
  from found obtain j where j: "j < length its" "itemFilter d (its ! j)" "it = its ! j"
      "\<forall>k<j. \<not> itemFilter d (its ! k)"
    unfolding find_Some_iff by blast
  have "fst (upsertItem now its d) = its[j := setItemFields now d (its ! j)]"
    unfolding r using updateFirst_index [OF j(1,2,4)] by simp
  with j
  show "\<exists>j<length its.
         its ! j = it \<and> (\<forall>k<j. \<not> (blogId (its ! k) = x_blogId d \<and> uid (its ! k) = x_uid d)) \<and>
         fst (upsertItem now its d) =
           its[j := it\<lparr> i_url := x_url d, i_title := x_title d, i_html := x_html d,
                        i_plain := x_plain d, i_summary := x_summary d,
                        published := x_published d, updated := x_updated d,
                        i_author := x_author d, i_photo := x_photo d,
                        i_categories := x_categories d, fetchedAt := IsoString now \<rparr>]"
    by (auto simp add: itemFilter_def setItemFields_def)
  show "\<not> ir_upserted (snd (upsertItem now its d))"
    unfolding r by simp
  have "map (\<lambda>i. (item_id i, itemKey i)) (updateFirst (itemFilter d) (setItemFields now d) its)
      = map (\<lambda>i. (item_id i, itemKey i)) its"
    by (rule updateFirst_map_invariant) simp
  then show "map (\<lambda>i. (item_id i, blogId i, uid i)) (fst (upsertItem now its d))
        = map (\<lambda>i. (item_id i, blogId i, uid i)) its"
    unfolding r by (simp add: itemKey_def)
qed

text \<open>Two syncs of the example blog, and a stored item whose entry comes back with a new title.\<close>

theorem syncBlogItems_idempotent_witness:
  "snd (syncBlogItems exampleEnv 1000 50
      (exampleDb [exampleBlog 1 ''https://ok.example/feed'' None Active])
      (exampleBlog 1 ''https://ok.example/feed'' None Active)) = Synced 1 1 \<and>
   snd (syncBlogItems exampleEnv 2000 50
      (fst (syncBlogItems exampleEnv 1000 50
         (exampleDb [exampleBlog 1 ''https://ok.example/feed'' None Active])
         (exampleBlog 1 ''https://ok.example/feed'' None Active)))
      (exampleBlog 1 ''https://ok.example/feed'' None Active)) = Synced 0 1 \<and>
   map (\<lambda>i. (item_id i, blogId i, uid i, i_title i, fetchedAt i))
     (fst (upsertItem 2000
        [newItem 7 1000 (normalizeItem exampleEnv ''https://ok.example/feed'' 1 (exampleEntry ''p1'' 5000))]
        ((normalizeItem exampleEnv ''https://ok.example/feed'' 1 (exampleEntry ''p1'' 5000))
           \<lparr> x_title := ''Renamed'' \<rparr>)))
     = [(7, 1, ''https://ok.example/feed:'', ''Renamed'', IsoString 2000)]"
proof -
  let ?b = "exampleBlog 1 ''https://ok.example/feed'' None Active"
  let ?feed = "exampleFeed [exampleEntry ''p1'' 5000]"
  let ?d0 = "normalizeItem exampleEnv ''https://ok.example/feed'' 1 (exampleEntry ''p1'' 5000)"
  let ?it = "newItem 7 1000 ?d0"
  let ?d = "?d0\<lparr> x_title := ''Renamed'' \<rparr>"
  have f: "fetchFeed exampleEnv (feedUrl ?b) = Inr ?feed"
    by (simp add: exampleEnv_def exampleBlog_def)
  have first: "snd (syncBlogItems exampleEnv 1000 50 (exampleDb [?b]) ?b) = Synced 1 1"
    unfolding syncBlogItems_ok [OF f]
    by (simp add: exampleFeed_def exampleDb_def upsertItem_def)
  have found: "List.find (\<lambda>i. blogId i = x_blogId ?d \<and> uid i = x_uid ?d) [?it] = Some ?it"
    by (simp add: newItem_def setItemFields_def normalizeItem_def)
  note inst = syncBlogItems_idempotent [where ?e1.0 = exampleEnv and ?e2.0 = exampleEnv and b = ?b
        and feed = ?feed and ?now1.0 = 1000 and ?now2.0 = 2000 and m = 50 and db = "exampleDb [?b]"
        and d = ?d and its = "[?it]" and it = ?it and now = 2000]
  have "snd (syncBlogItems exampleEnv 2000 50
      (fst (syncBlogItems exampleEnv 1000 50 (exampleDb [?b]) ?b)) ?b)
      = Synced 0 (length (take 50 (pf_entries ?feed)))"
    using inst f by simp
  then have second: "snd (syncBlogItems exampleEnv 2000 50
      (fst (syncBlogItems exampleEnv 1000 50 (exampleDb [?b]) ?b)) ?b) = Synced 0 1"
    by (simp add: exampleFeed_def)
  from inst found obtain j where "j < length [?it]"
    and "fst (upsertItem 2000 [?it] ?d) =
           [?it][j := ?it\<lparr> i_url := x_url ?d, i_title := x_title ?d, i_html := x_html ?d,
                        i_plain := x_plain ?d, i_summary := x_summary ?d,
                        published := x_published ?d, updated := x_updated ?d,
                        i_author := x_author ?d, i_photo := x_photo ?d,
                        i_categories := x_categories ?d, fetchedAt := IsoString 2000 \<rparr>]"
    by blast
  then have "fst (upsertItem 2000 [?it] ?d) =
           [?it\<lparr> i_url := x_url ?d, i_title := x_title ?d, i_html := x_html ?d,
                        i_plain := x_plain ?d, i_summary := x_summary ?d,
                        published := x_published ?d, updated := x_updated ?d,
                        i_author := x_author ?d, i_photo := x_photo ?d,
                        i_categories := x_categories ?d, fetchedAt := IsoString 2000 \<rparr>]"
    by simp
  then have third: "map (\<lambda>i. (item_id i, blogId i, uid i, i_title i, fetchedAt i))
     (fst (upsertItem 2000 [?it] ?d))
     = [(7, 1, ''https://ok.example/feed:'', ''Renamed'', IsoString 2000)]"
    by (simp add: newItem_def setItemFields_def normalizeItem_def generateUid_def
        exampleEnv_def exampleEntry_def)
  from first second third show ?thesis by simp
qed

lemma syncBlogItems_eq:
  "syncBlogItems e now m db b =
     (db\<lparr> blogrollItems := fst (upsertItems now (fetchedItems e m b) (blogrollItems db, 0)),
           blogrollBlogs := updateBlogStatus now (blog_id b) (fetchStatus e m b) (blogrollBlogs db) \<rparr>,
      case fetchFeed e (feedUrl b) of
        Inl err \<Rightarrow> SyncFailed err
      | Inr feed \<Rightarrow>
          Synced (snd (upsertItems now (fetchedItems e m b) (blogrollItems db, 0)))
            (length (take m (pf_entries feed))))"
proof (cases "fetchFeed e (feedUrl b)")
  case (Inl err)
  then show ?thesis
    by (simp add: syncBlogItems_def fetchAndParseFeed_def fetchStatus_def fetchedItems_def)
next
  case (Inr feed)
  then show ?thesis
    using syncBlogItems_ok [OF Inr, of now m db]
    by (simp add: fetchStatus_def fetchedItems_def)
qed

lemma fetchedItems_blog: "d \<in> set (fetchedItems e m b) \<Longrightarrow> fst (dataKey d) = blog_id b"
  by (auto simp: fetchedItems_def dataKey_def normalizeItem_def split: sum.splits)

lemma keysOf_upsertItems_other:
  assumes "\<forall>d\<in>set ds. fst (dataKey d) \<noteq> bid"
  shows "keysOf bid (fst (upsertItems now ds (its, n))) = keysOf bid its"
  using assms upsertItems_keys [of now ds its n]
  by (auto simp: keysOf_def)

lemma keysOf_syncBlogItems_other:
  assumes "blog_id b \<noteq> bid"
  shows "keysOf bid (blogrollItems (fst (syncBlogItems e now m db b))) = keysOf bid (blogrollItems db)"
proof -
  have "\<forall>d\<in>set (fetchedItems e m b). fst (dataKey d) \<noteq> bid"
    using assms by (auto dest: fetchedItems_blog)
  then show ?thesis
    by (simp add: syncBlogItems_eq keysOf_upsertItems_other)
qed

text \<open>The number of inserts of the item loop depends on the stored keys only.\<close>

lemma upsertItem_upserted: "ir_upserted (snd (upsertItem now its d)) \<longleftrightarrow> dataKey d \<notin> set (map itemKey its)"
proof (cases "List.find (itemFilter d) its")
  case None
  then have "dataKey d \<notin> set (map itemKey its)"
    by (rule find_itemFilter_None [THEN iffD1])
  with None show ?thesis by (simp add: upsertItem_def)
next
  case (Some i)
  then have "\<not> dataKey d \<notin> set (map itemKey its)"
    using find_itemFilter_None [of d its] by simp
  with Some show ?thesis by (simp add: upsertItem_def)
qed

lemma upsertItems_count_keys:
  assumes "\<forall>d\<in>set ds. dataKey d \<in> set (map itemKey its) \<longleftrightarrow> dataKey d \<in> set (map itemKey its')"
  shows "snd (upsertItems now ds (its, n)) = snd (upsertItems now' ds (its', n))"
  using assms
proof (induction ds arbitrary: its its' n)
  case Nil
  then show ?case by simp
next
  case (Cons d ds)
  obtain i1 r1 where s1: "upsertItem now its d = (i1, r1)" by (cases "upsertItem now its d") auto
  obtain i2 r2 where s2: "upsertItem now' its' d = (i2, r2)" by (cases "upsertItem now' its' d") auto
  have up: "ir_upserted r1 = ir_upserted r2"
    using upsertItem_upserted [of now its d] upsertItem_upserted [of now' its' d] s1 s2 Cons.prems
    by simp
  have k1: "set (map itemKey i1) = insert (dataKey d) (set (map itemKey its))"
    using upsertItem_keys [of now its d] s1 by simp
  have k2: "set (map itemKey i2) = insert (dataKey d) (set (map itemKey its'))"
    using upsertItem_keys [of now' its' d] s2 by simp
  have "\<forall>x\<in>set ds. dataKey x \<in> set (map itemKey i1) \<longleftrightarrow> dataKey x \<in> set (map itemKey i2)"
    unfolding k1 k2 using Cons.prems by auto
  from Cons.IH [OF this, of "if ir_upserted r1 then n + 1 else n"] s1 s2 up
  show ?case by simp
qed

lemma syncBlogItems_result_keys:
  assumes "keysOf (blog_id b) (blogrollItems db) = keysOf (blog_id b) (blogrollItems db')"
  shows "snd (syncBlogItems e now m db b) = snd (syncBlogItems e now' m db' b)"
proof -
  have "\<forall>d\<in>set (fetchedItems e m b).
      dataKey d \<in> set (map itemKey (blogrollItems db)) \<longleftrightarrow> dataKey d \<in> set (map itemKey (blogrollItems db'))"
  proof
    fix d assume "d \<in> set (fetchedItems e m b)"
    then have "fst (dataKey d) = blog_id b" by (rule fetchedItems_blog)
    then have "\<And>its. dataKey d \<in> set (map itemKey its) \<longleftrightarrow> dataKey d \<in> keysOf (blog_id b) its"
      by (simp add: keysOf_def)
    with assms show "dataKey d \<in> set (map itemKey (blogrollItems db)) \<longleftrightarrow>
        dataKey d \<in> set (map itemKey (blogrollItems db'))"
      by simp
  qed
  from upsertItems_count_keys [OF this, of now 0 now']
  show ?thesis
    by (simp add: syncBlogItems_eq split: sum.splits)
qed

lemma syncBlogItems_result_fetch:
  "snd (syncBlogItems e now m db b) = SyncFailed err \<longleftrightarrow> fetchFeed e (feedUrl b) = Inl err"
  by (cases "fetchFeed e (feedUrl b)") (simp_all add: syncBlogItems_eq)

text \<open>The tallies of the loop.\<close>

lemma syncBlogs_tally:
  "blogsFailed (snd (syncBlogs e m bs (db, t))) =
     blogsFailed t + length (filter (\<lambda>b. \<not> skipsFetch b \<and> isl (fetchFeed e (feedUrl b))) bs) \<and>
   blogsSuccess (snd (syncBlogs e m bs (db, t))) =
     blogsSuccess t + length (filter (\<lambda>b. \<not> skipsFetch b \<and> \<not> isl (fetchFeed e (feedUrl b))) bs)"
proof (induction bs arbitrary: db t)
  case Nil
  then show ?case by simp
next
  case (Cons b rest)
  show ?case
  proof (cases "skipsFetch b")
    case True
    then show ?thesis using Cons.IH by simp
  next
    case False
    show ?thesis
    proof (cases "fetchFeed e (feedUrl b)")
      case (Inl err)
      with False show ?thesis
        using Cons.IH by (simp add: syncBlogItems_eq)
    next
      case (Inr feed)
      with False show ?thesis
        using Cons.IH by (simp add: syncBlogItems_eq)
    qed
  qed
qed

lemma filter_single:
  assumes "k < length xs" and "P (xs ! k)" and "\<forall>j<length xs. j \<noteq> k \<longrightarrow> \<not> P (xs ! j)"
  shows "length (filter P xs) = 1"
  using assms
proof (induction xs arbitrary: k)
  case Nil
  then show ?case by simp
next
  case (Cons x xs)
  show ?case
  proof (cases k)
    case 0
    with Cons.prems have "\<forall>j<length xs. \<not> P (xs ! j)" by auto
    then have "filter P xs = []" by (auto simp: filter_empty_conv in_set_conv_nth)
    with 0 Cons.prems show ?thesis by simp
  next
    case (Suc k')
    with Cons.prems have "\<not> P x" by auto
    moreover from Suc Cons.prems have "length (filter P xs) = 1"
      by (intro Cons.IH [of k']) auto
    ultimately show ?thesis by simp
  qed
qed

lemma fold_max_ge: "(a::nat) \<le> fold max ids a \<and> (\<forall>x\<in>set ids. x \<le> fold max ids a)"
proof (induction ids arbitrary: a)
  case Nil
  then show ?case by simp
next
  case (Cons y ys)
  from Cons.IH [of "max y a"] show ?case by auto
qed

lemma freshId_notin: "freshId ids \<notin> set ids"
proof
  assume "freshId ids \<in> set ids"
  then have "freshId ids \<le> fold max ids 0" using fold_max_ge [of 0 ids] by blast
  then show False by (simp add: freshId_def)
qed

lemma upsertBlog_distinct_ids:
  assumes "distinct (map blog_id bs)"
  shows "distinct (map blog_id (fst (upsertBlog now bs d)))"
proof (cases rule: upsertBlog_cases [of now bs d])
  case skipped
  with assms show ?thesis by simp
next
  case (updated m)
  have "map blog_id (updateFirst (blogFilter d) (setFields now d) bs) = map blog_id bs"
    by (rule updateFirst_map_invariant) simp
  with assms updated(3) show ?thesis by simp
next
  case inserted
  with assms freshId_notin [of "map blog_id bs"] show ?thesis by simp
qed

lemma upsertAll_distinct_ids:
  assumes "distinct (map blog_id (fst acc))"
  shows "distinct (map blog_id (fst (upsertAll now ds acc)))"
  using assms
proof (induction ds arbitrary: acc)
  case Nil
  then show ?case by simp
next
  case (Cons d ds)
  obtain bs a u where acc: "acc = (bs, a, u)" by (cases acc) auto
  obtain bs' r where step: "upsertBlog now bs d = (bs', r)" by (cases "upsertBlog now bs d") auto
  from Cons.prems acc have "distinct (map blog_id bs)" by simp
  then have "distinct (map blog_id bs')"
    using upsertBlog_distinct_ids [of bs now d] step by simp
  then have "distinct (map blog_id (fst (upsertAll now ds
      (bs', if upserted r then a + 1 else a, if \<not> upserted r \<and> modified r then u + 1 else u))))"
    by (intro Cons.IH) simp
  with acc step show ?case by simp
qed

lemma updateMany_softDelete_ids: "map blog_id (updateMany P (softDelete now) bs) = map blog_id bs"
  by (simp add: updateMany_def softDelete_def comp_def)

lemma syncOpmlSource_distinct_ids:
  assumes "distinct (map blog_id (blogrollBlogs db))"
  shows "distinct (map blog_id (blogrollBlogs (fst (syncOpmlSource e now db src))))"
  using assms upsertAll_distinct_ids [of "(blogrollBlogs db, 0, 0)" now]
  by (auto simp: syncOpmlSource_def split: sum.splits prod.splits)
     (metis fst_conv)+

lemma syncFeedlandSource_distinct_ids:
  assumes "distinct (map blog_id (blogrollBlogs db))"
  shows "distinct (map blog_id (blogrollBlogs (fst (syncFeedlandSource e now db src))))"
  using assms upsertAll_distinct_ids [of "(blogrollBlogs db, 0, 0)" now]
  by (auto simp: syncFeedlandSource_def split: sum.splits prod.splits)
     (metis fst_conv)+

lemma syncMicrosubSource_distinct_ids:
  assumes "distinct (map blog_id (blogrollBlogs db))"
  shows "distinct (map blog_id (blogrollBlogs (fst (syncMicrosubSource e now ap db src))))"
proof (cases "microsub_channels ap")
  case None
  with assms show ?thesis by (simp add: syncMicrosubSource_def)
next
  case (Some chans)
  show ?thesis
  proof (cases "microsub_feeds ap")
    case None
    with assms Some show ?thesis by (simp add: syncMicrosubSource_def)
  next
    case feeds: (Some feeds)
    have "distinct (map blog_id (fst (upsertAll now
        (map (microsubData e src) (currentFeeds src chans feeds)) (blogrollBlogs db, 0, 0))))"
      using assms by (intro upsertAll_distinct_ids) simp
    with assms show ?thesis
      unfolding syncMicrosubSource_blogs [OF Some feeds]
      by (simp add: updateMany_softDelete_ids)
  qed
qed

lemma syncSources_distinct_ids:
  assumes "distinct (map blog_id (blogrollBlogs (fst acc)))"
  shows "distinct (map blog_id (blogrollBlogs (fst (syncSources e ap srcs acc))))"
  using assms
proof (induction srcs arbitrary: acc)
  case Nil
  then show ?case by simp
next
  case (Cons src rest)
  obtain db a f where acc: "acc = (db, a, f)" by (cases acc) auto
  let ?step = "if s_type src = Microsub
         then syncMicrosubSource e (clock e (SourceSync (source_id src))) ap db src
         else if s_type src = Feedland
         then syncFeedlandSource e (clock e (SourceSync (source_id src))) db src
         else syncOpmlSource e (clock e (SourceSync (source_id src))) db src"
  from Cons.prems acc have "distinct (map blog_id (blogrollBlogs (fst ?step)))"
    by (simp add: syncMicrosubSource_distinct_ids syncFeedlandSource_distinct_ids
        syncOpmlSource_distinct_ids)
  then have "distinct (map blog_id (blogrollBlogs (fst (syncSources e ap rest
      (fst ?step, if sourceSuccess (snd ?step) then a + 1 else a,
       if sourceSuccess (snd ?step) then f else f + 1)))))"
    by (intro Cons.IH) simp
  with acc show ?case by (simp add: split_beta)
qed

lemma afterSources_distinct_ids:
  assumes "distinct (map blog_id (blogrollBlogs db))"
  shows "distinct (map blog_id (blogrollBlogs (fst (afterSources e opts ap db))))"
  unfolding afterSources_def using assms by (intro syncSources_distinct_ids) simp

lemma distinct_map_sublist:
  assumes "distinct (map f xs)" and "distinct ys" and "set ys \<subseteq> set xs"
  shows "distinct (map f ys)"
proof -
  from assms(1) have "inj_on f (set xs)" by (simp add: distinct_map)
  with assms(3) have "inj_on f (set ys)" by (metis inj_on_subset)
  with assms(2) show ?thesis by (simp add: distinct_map)
qed

lemma getBlogs_distinct_ids:
  assumes "distinct (map blog_id bs)"
  shows "distinct (map blog_id (getBlogs bs))"
proof -
  from assms have d: "distinct bs" by (simp add: distinct_map)
  have d': "distinct (getBlogs bs)"
    unfolding getBlogs_def using d by (intro distinct_take) simp
  have "set (getBlogs bs) \<subseteq> set (sort_key (\<lambda>b. \<not> pinned b) (sort_key title
       (filter (\<lambda>b. status b \<noteq> Deleted \<and> \<not> hidden b) bs)))"
    unfolding getBlogs_def by (rule set_take_subset)
  then have sub: "set (getBlogs bs) \<subseteq> set bs"
    by auto
  show ?thesis by (rule distinct_map_sublist [OF assms d' sub])
qed

text \<open>The first two stages do not fetch feeds.\<close>

lemma afterSources_fetchFeed:
  "afterSources (e\<lparr> fetchFeed := f \<rparr>) opts ap db = afterSources e opts ap db"
proof -
  have step: "\<And>srcs acc. syncSources (e\<lparr> fetchFeed := f \<rparr>) ap srcs acc = syncSources e ap srcs acc"
  proof -
    fix srcs acc
    show "syncSources (e\<lparr> fetchFeed := f \<rparr>) ap srcs acc = syncSources e ap srcs acc"
    proof (induction srcs arbitrary: acc)
      case Nil
      then show ?case by simp
    next
      case (Cons src rest)
      obtain db a u where acc: "acc = (db, a, u)" by (cases acc) auto
      have md: "microsubData (e\<lparr> fetchFeed := f \<rparr>) = microsubData e"
        by (intro ext) (simp add: microsubData_def split: option.splits prod.splits)
      have ms: "syncMicrosubSource (e\<lparr> fetchFeed := f \<rparr>) = syncMicrosubSource e"
        by (intro ext) (simp add: syncMicrosubSource_def md cong: option.case_cong if_cong)
      have bu: "buildFeedlandOpmlUrl (e\<lparr> fetchFeed := f \<rparr>) = buildFeedlandOpmlUrl e"
        by (intro ext) (simp add: buildFeedlandOpmlUrl_def cong: option.case_cong)
      have fp: "fetchAndParseOpml (e\<lparr> fetchFeed := f \<rparr>) = fetchAndParseOpml e"
        by (intro ext) (simp add: fetchAndParseOpml_def)
      have fl: "syncFeedlandSource (e\<lparr> fetchFeed := f \<rparr>) = syncFeedlandSource e"
        by (intro ext) (simp add: syncFeedlandSource_def bu fp cong: sum.case_cong)
      have op: "syncOpmlSource (e\<lparr> fetchFeed := f \<rparr>) = syncOpmlSource e"
        by (intro ext) (simp add: syncOpmlSource_def fp cong: sum.case_cong if_cong)
      show ?case using Cons.IH acc by (simp add: ms fl op)
    qed
  qed
  show ?thesis by (simp add: afterSources_def step)
qed

lemma syncBlogs_blogs:
  "blogrollBlogs (fst (syncBlogs e m bs (db, t))) = foldl (blogStep e m) (blogrollBlogs db) bs"
proof (induction bs arbitrary: db t)
  case Nil
  then show ?case by simp
next
  case (Cons b rest)
  show ?case
  proof (cases "skipsFetch b")
    case True
    then show ?thesis using Cons.IH by (simp add: blogStep_def)
  next
    case False
    then show ?thesis
      using Cons.IH by (simp add: blogStep_def syncBlogItems_eq split_beta)
  qed
qed

lemma agreeDoc_refl: "agreeDoc k x x"
  by (simp add: agreeDoc_def)

lemma agreeExcept_refl: "agreeExcept k xs xs"
  by (simp add: agreeExcept_def list_all2_refl agreeDoc_refl)

lemma agreeExcept_filter:
  assumes "agreeExcept k xs ys"
  shows "filter (\<lambda>x. blog_id x \<noteq> k) xs = filter (\<lambda>x. blog_id x \<noteq> k) ys"
  using assms unfolding agreeExcept_def
proof (induction rule: list_all2_induct)
  case Nil
  then show ?case by simp
next
  case (Cons x xs y ys)
  from Cons.hyps(1) have "blog_id x = blog_id y" and "blog_id x = k \<or> x = y"
    by (auto simp: agreeDoc_def)
  then show ?case using Cons.IH by auto
qed

lemma updateFirst_agree:
  assumes "agreeExcept k xs ys"
    and f: "\<And>x. blog_id (f x) = blog_id x" and g: "\<And>x. blog_id (g x) = blog_id x"
    and fg: "bid \<noteq> k \<Longrightarrow> f = g"
  shows "agreeExcept k (updateFirst (\<lambda>x. blog_id x = bid) f xs) (updateFirst (\<lambda>x. blog_id x = bid) g ys)"
  using assms(1) unfolding agreeExcept_def
proof (induction rule: list_all2_induct)
  case Nil
  then show ?case by simp
next
  case (Cons x xs y ys)
  from Cons.hyps(1) have ids: "blog_id x = blog_id y" and eq: "blog_id x = k \<or> x = y"
    by (auto simp: agreeDoc_def)
  show ?case
  proof (cases "blog_id x = bid")
    case True
    have "agreeDoc k (f x) (g y)"
    proof (cases "blog_id x = k")
      case k: True
      then show ?thesis by (simp add: agreeDoc_def f g ids [symmetric])
    next
      case False
      with True have "bid \<noteq> k" by simp
      then have "f = g" by (rule fg)
      moreover from False eq have "x = y" by simp
      ultimately show ?thesis by (simp add: agreeDoc_refl)
    qed
    with True ids Cons.hyps(2) show ?thesis by simp
  next
    case False
    with ids have "blog_id y \<noteq> bid" by simp
    with False Cons.IH Cons.hyps(1) show ?thesis by simp
  qed
qed

lemma updateBlogStatus_agree:
  assumes "agreeExcept k xs ys" and "bid \<noteq> k \<Longrightarrow> st = st'"
  shows "agreeExcept k (updateBlogStatus now bid st xs) (updateBlogStatus now bid st' ys)"
  unfolding updateBlogStatus_def
  by (rule updateFirst_agree [OF assms(1)]) (simp_all add: assms(2) split: fetch_status.splits)

lemma foldl_blogStep_agree:
  assumes "agreeExcept k xs ys" and "clock e' = clock e"
    and "\<forall>b\<in>set bs. blog_id b \<noteq> k \<and> \<not> skipsFetch b \<longrightarrow> fetchStatus e' m b = fetchStatus e m b"
  shows "agreeExcept k (foldl (blogStep e m) xs bs) (foldl (blogStep e' m) ys bs)"
  using assms
proof (induction bs arbitrary: xs ys)
  case Nil
  then show ?case by simp
next
  case (Cons b rest)
  have "agreeExcept k (blogStep e m xs b) (blogStep e' m ys b)"
  proof (cases "skipsFetch b")
    case True
    with Cons.prems(1) show ?thesis by (simp add: blogStep_def)
  next
    case False
    with Cons.prems show ?thesis
      by (auto simp: blogStep_def intro!: updateBlogStatus_agree)
  qed
  with Cons show ?case by simp
qed

lemma syncBlogItems_other_url:
  assumes "feedUrl b \<noteq> u"
  shows "syncBlogItems (e\<lparr> fetchFeed := (fetchFeed e)(u := r) \<rparr>) now m db b = syncBlogItems e now m db b"
    and "fetchStatus (e\<lparr> fetchFeed := (fetchFeed e)(u := r) \<rparr>) m b = fetchStatus e m b"
proof -
  have n: "normalizeItem (e\<lparr> fetchFeed := (fetchFeed e)(u := r) \<rparr>) = normalizeItem e"
    by (intro ext) (simp add: normalizeItem_def)
  show "syncBlogItems (e\<lparr> fetchFeed := (fetchFeed e)(u := r) \<rparr>) now m db b = syncBlogItems e now m db b"
    using assms by (simp add: syncBlogItems_def fetchAndParseFeed_def n cong: sum.case_cong)
  show "fetchStatus (e\<lparr> fetchFeed := (fetchFeed e)(u := r) \<rparr>) m b = fetchStatus e m b"
    using assms by (simp add: fetchStatus_def)
qed

lemma syncBlogItems_failed:
  assumes "fetchFeed e (feedUrl b) = Inl err"
  shows "syncBlogItems e now m d b =
     (d\<lparr> blogrollBlogs := updateFirst (\<lambda>x. blog_id x = blog_id b)
            (\<lambda>x. x\<lparr> updatedAt := now, status := Error, lastError := Some err \<rparr>) (blogrollBlogs d) \<rparr>,
      SyncFailed err)"
  using assms by (simp add: syncBlogItems_def fetchAndParseFeed_def updateBlogStatus_def)

lemma updateFirst_hit:
  "\<exists>x\<in>set xs. P x \<Longrightarrow> \<exists>x\<in>set xs. P x \<and> f x \<in> set (updateFirst P f xs)"
  by (induction xs) auto

lemma updateFirst_mem:
  "x \<in> set xs \<Longrightarrow> x \<in> set (updateFirst P f xs) \<or> (P x \<and> f x \<in> set (updateFirst P f xs))"
  by (induction xs) auto

lemma upsertBlog_noTombstone:
  assumes "plainData sid K d" and "noTombstone u bs"
  shows "noTombstone u (fst (upsertBlog now bs d))"
proof -
  from assms(1) have st: "d_status d = None" by (simp add: plainData_def)
  show ?thesis
  proof (cases rule: upsertBlog_cases [of now bs d])
    case skipped
    with assms(2) show ?thesis by simp
  next
    case (updated m)
    have "\<And>y. y \<in> set (updateFirst (blogFilter d) (setFields now d) bs)
        \<Longrightarrow> feedUrl y \<noteq> u \<or> status y \<noteq> Deleted"
    proof -
      fix y assume "y \<in> set (updateFirst (blogFilter d) (setFields now d) bs)"
      then have "y \<in> set bs \<or> (\<exists>x\<in>set bs. blogFilter d x \<and> y = setFields now d x)"
        by (rule updateFirst_set)
      then show "feedUrl y \<noteq> u \<or> status y \<noteq> Deleted"
        using assms(2) st by (auto simp add: noTombstone_def list_all_iff)
    qed
    with updated(3) show ?thesis by (auto simp add: noTombstone_def list_all_iff)
  next
    case inserted
    with assms(2) st show ?thesis by (auto simp add: noTombstone_def list_all_iff)
  qed
qed

lemma upsertBlog_carries_kept:
  assumes "plainData sid K d" and "b \<in> set bs" and "carries sid K u b"
  shows "\<exists>b'\<in>set (fst (upsertBlog now bs d)). carries sid K u b'"
proof (cases rule: upsertBlog_cases [of now bs d])
  case skipped
  with assms(2,3) show ?thesis by auto
next
  case (updated m)
  from updateFirst_mem [OF assms(2), of "blogFilter d" "setFields now d"]
  have "b \<in> set (fst (upsertBlog now bs d)) \<or>
      (blogFilter d b \<and> setFields now d b \<in> set (fst (upsertBlog now bs d)))"
    unfolding updated(3) .
  moreover have "carries sid K u (setFields now d b)"
    using assms(1,3) by (simp add: carries_def plainData_def)
  ultimately show ?thesis using assms(3) by auto
next
  case inserted
  with assms(2,3) show ?thesis by auto
qed

lemma upsertBlog_carries_new:
  assumes "plainData sid K d" and "noTombstone (d_feedUrl d) bs"
  shows "\<exists>b'\<in>set (fst (upsertBlog now bs d)). carries sid K (d_feedUrl d) b'"
proof -
  from assms(2) have nd: "List.find (\<lambda>b. feedUrl b = d_feedUrl d \<and> status b = Deleted) bs = None"
    by (auto simp add: find_None_iff noTombstone_def list_all_iff)
  show ?thesis
  proof (cases "List.find (blogFilter d) bs")
    case None
    with nd have "fst (upsertBlog now bs d) =
        bs @ [setFields now d (insertDefaults (freshId (map blog_id bs)) now d)]"
      by (simp add: upsertBlog_def)
    moreover have "carries sid K (d_feedUrl d)
        (setFields now d (insertDefaults (freshId (map blog_id bs)) now d))"
      using assms(1) by (simp add: carries_def plainData_def)
    ultimately show ?thesis by auto
  next
    case (Some m)
    with nd have r: "fst (upsertBlog now bs d) = updateFirst (blogFilter d) (setFields now d) bs"
      by (simp add: upsertBlog_def)
    from Some have "\<exists>x\<in>set bs. blogFilter d x"
      unfolding find_Some_iff by auto
    from updateFirst_hit [OF this, of "setFields now d"]
    obtain x where x: "x \<in> set bs" "blogFilter d x"
        "setFields now d x \<in> set (updateFirst (blogFilter d) (setFields now d) bs)"
      by blast
    have "carries sid K (d_feedUrl d) (setFields now d x)"
      using assms(1) x(2) by (simp add: carries_def plainData_def blogFilter_def)
    with x(3) r show ?thesis by auto
  qed
qed

lemma upsertAll_written:
  assumes "list_all (plainData sid K) ds" and "noTombstone u bs"
    and "u \<in> set (map d_feedUrl ds) \<or> (\<exists>b\<in>set bs. carries sid K u b)"
  shows "\<exists>b\<in>set (fst (upsertAll now ds (bs, a, n))). carries sid K u b"
  using assms
proof (induction ds arbitrary: bs a n)
  case Nil
  then show ?case by simp
next
  case (Cons d ds)
  obtain bs' r where step: "upsertBlog now bs d = (bs', r)" by (cases "upsertBlog now bs d") auto
  from Cons.prems(1) have pd: "plainData sid K d" and rest: "list_all (plainData sid K) ds"
    by simp_all
  have nt: "noTombstone u bs'"
    using upsertBlog_noTombstone [OF pd Cons.prems(2), of now] step by simp
  have next_step: "fst (upsertAll now (d # ds) (bs, a, n)) =
      fst (upsertAll now ds (bs', if upserted r then a + 1 else a,
        if \<not> upserted r \<and> modified r then n + 1 else n))"
    using step by simp
  have "u \<in> set (map d_feedUrl ds) \<or> (\<exists>b\<in>set bs'. carries sid K u b)"
  proof (cases "\<exists>b\<in>set bs. carries sid K u b")
    case True
    then obtain b where "b \<in> set bs" "carries sid K u b" by blast
    from upsertBlog_carries_kept [OF pd this, of now] step show ?thesis by simp
  next
    case False
    with Cons.prems(3) have "u = d_feedUrl d \<or> u \<in> set (map d_feedUrl ds)" by auto
    then show ?thesis
    proof
      assume u: "u = d_feedUrl d"
      with Cons.prems(2) have "noTombstone (d_feedUrl d) bs" by simp
      from upsertBlog_carries_new [OF pd this, of now] step u show ?thesis by simp
    next
      assume "u \<in> set (map d_feedUrl ds)"
      then show ?thesis by simp
    qed
  qed
  from Cons.IH [OF rest nt this] next_step show ?case by simp
qed

lemma parseOpml_flat:
  assumes "\<forall>ol\<in>set (body doc). \<not> truthyOutlines (subs ol)"
  shows "parseOpml doc = concat (map (feedEntry []) (body doc))"
proof (cases "truthyOutlines (body doc)")
  case True
  have eq: "map outlineEntries (body doc) = map (feedEntry []) (body doc)"
    using assms by (simp add: outlineEntries_def)
  show ?thesis
    unfolding parseOpml_def parseOutlines_def eq using True by simp
next
  case False
  then have "body doc = [] \<or> body doc = [Outline [] []]"
    by (simp add: truthyOutlines_def)
  then show ?thesis
    by (auto simp add: parseOpml_def parseOutlines_def truthyOutlines_def feedEntry_def attr_def)
qed

lemma feedEntry_urls:
  "map c_feedUrl (concat (map (feedEntry cat) ols))
     = filter (\<lambda>u. u \<noteq> []) (map (\<lambda>ol. attr ol ''xmlUrl'') ols)"
  by (induction ols) (simp_all add: feedEntry_def)

lemma feedEntry_category:
  "c \<in> set (concat (map (feedEntry cat) ols)) \<Longrightarrow> c_category c = cat"
  by (auto simp add: feedEntry_def split: if_splits)

lemma feedlandData_plain:
  assumes "c_category c = []"
  shows "plainData (source_id src)
     (case orNull (feedlandCategory src) of
        Some cat \<Rightarrow> cat
      | None \<Rightarrow> (case orNull (feedlandUsername src) of Some name \<Rightarrow> name | None \<Rightarrow> []))
     (feedlandData src c)"
  using assms
  by (simp add: plainData_def feedlandData_def candidateData_def feedlandCategoryOf_def
      orElse_def orNull_def split: option.splits)

lemma syncFeedlandSource_fetched:
  assumes "buildFeedlandOpmlUrl e src = Inr url" and "fetchXml e (Some url) = Inr doc"
  shows "blogrollBlogs (fst (syncFeedlandSource e now db src))
       = fst (upsertAll now (map (feedlandData src) (parseOpml doc)) (blogrollBlogs db, 0, 0))"
    and "sourceSuccess (snd (syncFeedlandSource e now db src))"
  using assms
  by (simp_all add: syncFeedlandSource_def fetchAndParseOpml_def split: prod.splits)

text \<open>
  C9 (amended). A sync of the remote-directory adapter whose list is fetched and whose
  outlines declare no category of their own (top-level feed entries without a \<open>category\<close>
  attribute) succeeds; the category it gives is the source's category filter when that is
  not empty, else the remote account name when that is not empty, else the empty string.
  Every blog document in the collection after the sync was there before or has the feed
  URL of one of the outlines and this category; every outline with a feed URL that no
  deleted blog has leaves a blog of this source with that feed URL and this category. The
  category is not empty if and only if the source has a category filter or an account name.
\<close>

theorem syncFeedlandSource_category:
  assumes "buildFeedlandOpmlUrl e src = Inr url" and "fetchXml e (Some url) = Inr doc"
    and "\<forall>ol\<in>set (body doc). \<not> truthyOutlines (subs ol) \<and> attr ol ''category'' = []"
    and "resolved = (case orNull (feedlandCategory src) of
           Some cat \<Rightarrow> cat
         | None \<Rightarrow> (case orNull (feedlandUsername src) of Some name \<Rightarrow> name | None \<Rightarrow> []))"
    and "after = blogrollBlogs (fst (syncFeedlandSource e now db src))"
  shows "sourceSuccess (snd (syncFeedlandSource e now db src)) \<and>
     (\<forall>b\<in>set after. b \<in> set (blogrollBlogs db) \<or>
        (\<exists>ol\<in>set (body doc). attr ol ''xmlUrl'' \<noteq> [] \<and> feedUrl b = attr ol ''xmlUrl'') \<and>
        category b = resolved) \<and>
     (\<forall>ol\<in>set (body doc).
        attr ol ''xmlUrl'' \<noteq> [] \<and>
        (\<forall>x\<in>set (blogrollBlogs db). feedUrl x = attr ol ''xmlUrl'' \<longrightarrow> status x \<noteq> Deleted) \<longrightarrow>
        (\<exists>b\<in>set after. feedUrl b = attr ol ''xmlUrl'' \<and> sourceId b = Some (source_id src) \<and>
           category b = resolved)) \<and>
     (resolved \<noteq> [] \<longleftrightarrow>
        orNull (feedlandCategory src) \<noteq> None \<or> orNull (feedlandUsername src) \<noteq> None)"
proof (intro conjI)
  let ?cands = "parseOpml doc"
  let ?ds = "map (feedlandData src) ?cands"
  from assms(3) have flat: "\<forall>ol\<in>set (body doc). \<not> truthyOutlines (subs ol)" by simp
  note cands = parseOpml_flat [OF flat]
  have urls: "map c_feedUrl ?cands = filter (\<lambda>u. u \<noteq> []) (map (\<lambda>ol. attr ol ''xmlUrl'') (body doc))"
    unfolding cands by (rule feedEntry_urls)
  have nocat: "\<And>c. c \<in> set ?cands \<Longrightarrow> c_category c = []"
    unfolding cands by (rule feedEntry_category)
  have plain: "list_all (plainData (source_id src) resolved) ?ds"
    unfolding assms(4) using nocat by (simp add: list_all_iff feedlandData_plain)
  have durls: "map d_feedUrl ?ds = map c_feedUrl ?cands"
    by (simp add: feedlandData_def candidateData_def)
  note run = syncFeedlandSource_fetched [OF assms(1,2), of now db]
  have after: "after = fst (upsertAll now ?ds (blogrollBlogs db, 0, 0))"
    unfolding assms(5) by (rule run(1))
  show "sourceSuccess (snd (syncFeedlandSource e now db src))" by (rule run(2))
  show "\<forall>b\<in>set after. b \<in> set (blogrollBlogs db) \<or>
        (\<exists>ol\<in>set (body doc). attr ol ''xmlUrl'' \<noteq> [] \<and> feedUrl b = attr ol ''xmlUrl'') \<and>
        category b = resolved"
  proof
    fix b assume "b \<in> set after"
    then have "b \<in> set (blogrollBlogs db) \<or>
        (\<exists>d\<in>set ?ds. category b = d_category d \<and> feedUrl b = d_feedUrl d)"
      unfolding after using upsertAll_docs [of b now ?ds "(blogrollBlogs db, 0, 0)"] by simp
    then show "b \<in> set (blogrollBlogs db) \<or>
        (\<exists>ol\<in>set (body doc). attr ol ''xmlUrl'' \<noteq> [] \<and> feedUrl b = attr ol ''xmlUrl'') \<and>
        category b = resolved"
    proof
      assume "b \<in> set (blogrollBlogs db)"
      then show ?thesis by simp
    next
      assume "\<exists>d\<in>set ?ds. category b = d_category d \<and> feedUrl b = d_feedUrl d"
      then obtain d where d: "d \<in> set ?ds" "category b = d_category d" "feedUrl b = d_feedUrl d"
        by blast
      from d(1) plain have "d_category d = resolved"
        by (auto simp add: list_all_iff plainData_def)
      moreover from d(1) have "d_feedUrl d \<in> set (map d_feedUrl ?ds)" by force
      then have "d_feedUrl d \<in> set (filter (\<lambda>u. u \<noteq> []) (map (\<lambda>ol. attr ol ''xmlUrl'') (body doc)))"
        unfolding durls urls .
      then have "\<exists>ol\<in>set (body doc). attr ol ''xmlUrl'' \<noteq> [] \<and> d_feedUrl d = attr ol ''xmlUrl''"
        by auto
      ultimately show ?thesis using d(2,3) by simp
    qed
  qed
  show "\<forall>ol\<in>set (body doc).
        attr ol ''xmlUrl'' \<noteq> [] \<and>
        (\<forall>x\<in>set (blogrollBlogs db). feedUrl x = attr ol ''xmlUrl'' \<longrightarrow> status x \<noteq> Deleted) \<longrightarrow>
        (\<exists>b\<in>set after. feedUrl b = attr ol ''xmlUrl'' \<and> sourceId b = Some (source_id src) \<and>
           category b = resolved)"
  proof (intro ballI impI)
    fix ol assume ol: "ol \<in> set (body doc)"
      and h: "attr ol ''xmlUrl'' \<noteq> [] \<and>
        (\<forall>x\<in>set (blogrollBlogs db). feedUrl x = attr ol ''xmlUrl'' \<longrightarrow> status x \<noteq> Deleted)"
    from h have nt: "noTombstone (attr ol ''xmlUrl'') (blogrollBlogs db)"
      by (auto simp add: noTombstone_def list_all_iff)
    from ol h have "attr ol ''xmlUrl'' \<in> set (filter (\<lambda>u. u \<noteq> []) (map (\<lambda>ol. attr ol ''xmlUrl'') (body doc)))"
      by auto
    then have "attr ol ''xmlUrl'' \<in> set (map d_feedUrl ?ds)"
      unfolding durls urls .
    then have "attr ol ''xmlUrl'' \<in> set (map d_feedUrl ?ds) \<or>
        (\<exists>b\<in>set (blogrollBlogs db). carries (source_id src) resolved (attr ol ''xmlUrl'') b)"
      by (rule disjI1)
    from upsertAll_written [OF plain nt this, of now 0 0]
    show "\<exists>b\<in>set after. feedUrl b = attr ol ''xmlUrl'' \<and> sourceId b = Some (source_id src) \<and>
           category b = resolved"
      unfolding after by (simp add: carries_def)
  qed
  show "resolved \<noteq> [] \<longleftrightarrow>
        orNull (feedlandCategory src) \<noteq> None \<or> orNull (feedlandUsername src) \<noteq> None"
    unfolding assms(4) by (auto simp add: orNull_def split: option.splits if_splits)
qed

lemma feedlandEnv_candidates:
  "fetchAndParseOpml feedlandEnv u =
     Inr [\<lparr> c_title = ''Blog'', c_feedUrl = ''https://a.example/feed'', c_siteUrl = [],
            c_feedType = ''rss'', c_category = [] \<rparr>]"
  by (simp add: fetchAndParseOpml_def feedlandEnv_def exampleEnv_def parseOpml_def
      parseOutlines_def outlineEntries_def truthyOutlines_def feedEntry_def attr_def orElse_def
      detectFeedType_def
      lowerChar_def less_eq_char_def)

text \<open>A source without account name and category filter imports the entry with an empty
  category.\<close>

theorem syncFeedlandSource_category_counterexample:
  "snd (syncFeedlandSource feedlandEnv 1000 (exampleDb [])
     ((exampleSource 3 Feedland)\<lparr> feedlandInstance := Some ''https://feedland.com'' \<rparr>))
     = SourceSynced 1 0 None 1 \<and>
   map (\<lambda>b. (feedUrl b, category b))
     (blogrollBlogs (fst (syncFeedlandSource feedlandEnv 1000 (exampleDb [])
       ((exampleSource 3 Feedland)\<lparr> feedlandInstance := Some ''https://feedland.com'' \<rparr>))))
   = [(''https://a.example/feed'', [])]"
  by (simp add: syncFeedlandSource_def buildFeedlandOpmlUrl_def feedlandEnv_candidates
      exampleSource_def exampleDb_def upsertBlog_def blogFilter_def feedlandData_def
      candidateData_def feedlandCategoryOf_def orElse_def orNull_def)

text \<open>A source with the account name \<open>dave\<close> and the category filter \<open>blogs\<close>.\<close>

theorem syncFeedlandSource_category_witness:
  "list_all (\<lambda>b. category b = ''blogs'')
     (blogrollBlogs (fst (syncFeedlandSource feedlandEnv 1000 (exampleDb [])
       ((exampleSource 3 Feedland)\<lparr> feedlandInstance := Some ''https://feedland.com'',
          feedlandUsername := Some ''dave'', feedlandCategory := Some ''blogs'' \<rparr>)))) \<and>
   (''https://a.example/feed'', Some 3, ''blogs'') \<in>
     set (map (\<lambda>b. (feedUrl b, sourceId b, category b))
       (blogrollBlogs (fst (syncFeedlandSource feedlandEnv 1000 (exampleDb [])
         ((exampleSource 3 Feedland)\<lparr> feedlandInstance := Some ''https://feedland.com'',
            feedlandUsername := Some ''dave'', feedlandCategory := Some ''blogs'' \<rparr>)))))"
proof -
  let ?src = "(exampleSource 3 Feedland)\<lparr> feedlandInstance := Some ''https://feedland.com'',
        feedlandUsername := Some ''dave'', feedlandCategory := Some ''blogs'' \<rparr>"
  let ?doc = "\<lparr> docTitle = ''subs'', dateCreated = 0,
      body = [Outline [(''text'', ''Blog''), (''type'', ''rss''),
                       (''xmlUrl'', ''https://a.example/feed'')] []] \<rparr>"
  let ?after = "blogrollBlogs (fst (syncFeedlandSource feedlandEnv 1000 (exampleDb []) ?src))"
  have url: "buildFeedlandOpmlUrl feedlandEnv ?src
      = Inr ''https://feedland.com/opml?screenname=dave&catname=blogs''"
    by (simp add: buildFeedlandOpmlUrl_def exampleSource_def feedlandEnv_def exampleEnv_def
        stripTrailingSlashes_def orNull_def)
  have doc: "fetchXml feedlandEnv (Some ''https://feedland.com/opml?screenname=dave&catname=blogs'')
      = Inr ?doc"
    by (simp add: feedlandEnv_def)
  have flat: "\<forall>ol\<in>set (body ?doc). \<not> truthyOutlines (subs ol) \<and> attr ol ''category'' = []"
    by (simp add: truthyOutlines_def attr_def)
  have res: "''blogs'' = (case orNull (feedlandCategory ?src) of
           Some cat \<Rightarrow> cat
         | None \<Rightarrow> (case orNull (feedlandUsername ?src) of Some name \<Rightarrow> name | None \<Rightarrow> []))"
    by (simp add: orNull_def)
  note inst = syncFeedlandSource_category [OF url doc flat res, of ?after 1000 "exampleDb []"]
  from inst have all: "\<forall>b\<in>set ?after. b \<in> set (blogrollBlogs (exampleDb [])) \<or>
        (\<exists>ol\<in>set (body ?doc). attr ol ''xmlUrl'' \<noteq> [] \<and> feedUrl b = attr ol ''xmlUrl'') \<and>
        category b = ''blogs''"
    by blast
  then have first: "list_all (\<lambda>b. category b = ''blogs'') ?after"
    by (simp add: list_all_iff exampleDb_def)
  from inst have "\<forall>ol\<in>set (body ?doc).
        attr ol ''xmlUrl'' \<noteq> [] \<and>
        (\<forall>x\<in>set (blogrollBlogs (exampleDb [])). feedUrl x = attr ol ''xmlUrl'' \<longrightarrow> status x \<noteq> Deleted) \<longrightarrow>
        (\<exists>b\<in>set ?after. feedUrl b = attr ol ''xmlUrl'' \<and> sourceId b = Some (source_id ?src) \<and>
           category b = ''blogs'')"
    by blast
  then have "\<exists>b\<in>set ?after. feedUrl b = ''https://a.example/feed'' \<and> sourceId b = Some 3 \<and>
           category b = ''blogs''"
    by (simp add: attr_def exampleDb_def exampleSource_def)
  then have second: "(''https://a.example/feed'', Some 3, ''blogs'') \<in>
     set (map (\<lambda>b. (feedUrl b, sourceId b, category b)) ?after)"
    by force
  from first second show ?thesis by simp
qed

text \<open>The loop over a list of blogs is the loop over its first part followed by the loop
  over the rest.\<close>

lemma syncBlogs_append:
  "syncBlogs e m (xs @ ys) acc = syncBlogs e m ys (syncBlogs e m xs acc)"
proof (induction xs arbitrary: acc)
  case Nil
  then show ?case by simp
next
  case (Cons b rest)
  obtain db t where acc: "acc = (db, t)" by (cases acc) auto
  show ?case unfolding acc by (simp add: Cons.IH split_beta)
qed

lemma syncBlogs_state:
  "fst (syncBlogs e m bs (db, t)) =
     db\<lparr> blogrollItems := foldl (itemStep e m) (blogrollItems db) bs,
         blogrollBlogs := foldl (blogStep e m) (blogrollBlogs db) bs \<rparr>"
proof (induction bs arbitrary: db t)
  case Nil
  then show ?case by simp
next
  case (Cons b rest)
  show ?case
  proof (cases "skipsFetch b")
    case True
    then show ?thesis using Cons.IH by (simp add: blogStep_def itemStep_def)
  next
    case False
    then show ?thesis
      using Cons.IH by (simp add: blogStep_def itemStep_def syncBlogItems_eq split_beta)
  qed
qed

lemma syncBlogs_single:
  "snd (syncBlogs e m [b] (d, t)) =
     tallyStep t (if skipsFetch b then None
                  else Some (snd (syncBlogItems e (clock e (BlogSync (blog_id b))) m d b)))"
proof (cases "skipsFetch b")
  case True
  then show ?thesis by simp
next
  case False
  then show ?thesis
    by (cases "snd (syncBlogItems e (clock e (BlogSync (blog_id b))) m d b)")
       (simp_all add: split_beta)
qed

lemma blogResult_last:
  "blogResult e m (xs @ [b]) db (length xs) =
     (if skipsFetch b then None
      else Some (snd (syncBlogItems e (clock e (BlogSync (blog_id b))) m
             (fst (syncBlogs e m xs
                (db, \<lparr> blogsSuccess = 0, blogsFailed = 0, blogsSkipped = 0, newItems = 0 \<rparr>))) b)))"
  by (simp add: blogResult_def)

lemma blogResult_butlast:
  "j < length xs \<Longrightarrow> blogResult e m (xs @ ys) db j = blogResult e m xs db j"
  by (simp add: blogResult_def nth_append)

text \<open>The counters of the loop are the tally of the blogs' results.\<close>

lemma syncBlogs_results:
  "snd (syncBlogs e m bs (db, t)) = foldl tallyStep t (map (blogResult e m bs db) [0..<length bs])"
proof (induction bs rule: rev_induct)
  case Nil
  then show ?case by simp
next
  case (snoc b xs)
  let ?t0 = "\<lparr> blogsSuccess = 0, blogsFailed = 0, blogsSkipped = 0, newItems = 0 \<rparr>"
  obtain dbx tx where x: "syncBlogs e m xs (db, t) = (dbx, tx)"
    by (cases "syncBlogs e m xs (db, t)") auto
  from x snoc.IH have tx: "tx = foldl tallyStep t (map (blogResult e m xs db) [0..<length xs])"
    by simp
  have "dbx = fst (syncBlogs e m xs (db, t))" using x by simp
  also have "\<dots> = fst (syncBlogs e m xs (db, ?t0))"
    unfolding syncBlogs_state ..
  finally have dbx: "dbx = fst (syncBlogs e m xs (db, ?t0))" .
  have pre: "map (blogResult e m (xs @ [b]) db) [0..<length xs]
      = map (blogResult e m xs db) [0..<length xs]"
    by (rule map_cong) (simp_all add: blogResult_butlast)
  have "snd (syncBlogs e m (xs @ [b]) (db, t)) = snd (syncBlogs e m [b] (dbx, tx))"
    unfolding syncBlogs_append x ..
  also have "\<dots> = tallyStep tx (blogResult e m (xs @ [b]) db (length xs))"
    unfolding syncBlogs_single blogResult_last dbx ..
  also have "\<dots> = foldl tallyStep t (map (blogResult e m (xs @ [b]) db) [0..<length (xs @ [b])])"
    unfolding tx by (simp add: pre)
  finally show ?case .
qed

lemma itemStep_keys:
  "set (map itemKey (itemStep e m its b)) =
     set (map itemKey its) \<union> (if skipsFetch b then {} else dataKey ` set (fetchedItems e m b))"
  using upsertItems_keys [of "clock e (BlogSync (blog_id b))" "fetchedItems e m b" its 0]
  by (simp add: itemStep_def)

lemma foldl_itemStep_keys:
  "set (map itemKey (foldl (itemStep e m) its bs)) =
     set (map itemKey its) \<union>
     (\<Union>b\<in>set bs. if skipsFetch b then {} else dataKey ` set (fetchedItems e m b))"
proof (induction bs arbitrary: its)
  case Nil
  then show ?case by simp
next
  case (Cons b rest)
  have "set (map itemKey (foldl (itemStep e m) its (b # rest))) =
      set (map itemKey (itemStep e m its b)) \<union>
      (\<Union>b\<in>set rest. if skipsFetch b then {} else dataKey ` set (fetchedItems e m b))"
    using Cons.IH [of "itemStep e m its b"] by simp
  then show ?case unfolding itemStep_keys by auto
qed

lemma keysOf_foldl_itemStep:
  assumes "\<forall>b\<in>set bs. blog_id b = bid \<longrightarrow> skipsFetch b \<or> fetchedItems e m b = []"
  shows "keysOf bid (foldl (itemStep e m) its bs) = keysOf bid its"
proof -
  have "\<forall>k\<in>(\<Union>b\<in>set bs. if skipsFetch b then {} else dataKey ` set (fetchedItems e m b)).
      fst k \<noteq> bid"
  proof
    fix k assume "k \<in> (\<Union>b\<in>set bs. if skipsFetch b then {} else dataKey ` set (fetchedItems e m b))"
    then obtain b d where b: "b \<in> set bs" "\<not> skipsFetch b" "d \<in> set (fetchedItems e m b)" "k = dataKey d"
      by (auto split: if_splits)
    from b(3) have "fst (dataKey d) = blog_id b" by (rule fetchedItems_blog)
    with assms b show "fst k \<noteq> bid" by auto
  qed
  then show ?thesis
    unfolding keysOf_def foldl_itemStep_keys by blast
qed

lemma distinct_take_nth:
  assumes "distinct (map f xs)" and "j < length xs"
  shows "\<forall>b\<in>set (take j xs). f b \<noteq> f (xs ! j)"
proof
  fix b assume "b \<in> set (take j xs)"
  then obtain i where i: "i < j" "i < length xs" "b = xs ! i"
    by (auto simp add: in_set_conv_nth)
  have "(map f xs ! i = map f xs ! j) = (i = j)"
    using assms i by (intro nth_eq_iff_index_eq) simp_all
  with assms(2) i show "f b \<noteq> f (xs ! j)" by simp
qed

text \<open>Each blog's result in the loop is the result of syncing that blog alone.\<close>

lemma blogResult_isolated:
  assumes "distinct (map blog_id bs)" and "j < length bs"
  shows "blogResult e m bs db j =
     (if skipsFetch (bs ! j) then None
      else Some (snd (syncBlogItems e (clock e (BlogSync (blog_id (bs ! j)))) m db (bs ! j))))"
proof -
  let ?t0 = "\<lparr> blogsSuccess = 0, blogsFailed = 0, blogsSkipped = 0, newItems = 0 \<rparr>"
  let ?dbj = "fst (syncBlogs e m (take j bs) (db, ?t0))"
  from distinct_take_nth [OF assms]
  have "\<forall>b\<in>set (take j bs). blog_id b = blog_id (bs ! j) \<longrightarrow> skipsFetch b \<or> fetchedItems e m b = []"
    by simp
  then have "keysOf (blog_id (bs ! j)) (foldl (itemStep e m) (blogrollItems db) (take j bs))
      = keysOf (blog_id (bs ! j)) (blogrollItems db)"
    by (rule keysOf_foldl_itemStep)
  then have "keysOf (blog_id (bs ! j)) (blogrollItems ?dbj) = keysOf (blog_id (bs ! j)) (blogrollItems db)"
    unfolding syncBlogs_state by simp
  then have "snd (syncBlogItems e (clock e (BlogSync (blog_id (bs ! j)))) m ?dbj (bs ! j))
      = snd (syncBlogItems e (clock e (BlogSync (blog_id (bs ! j)))) m db (bs ! j))"
    by (rule syncBlogItems_result_keys)
  then show ?thesis by (simp add: blogResult_def)
qed

lemma updateFirst_filter_other:
  assumes "\<And>x. P x \<Longrightarrow> \<not> Q x \<and> \<not> Q (f x)"
  shows "filter Q (updateFirst P f xs) = filter Q xs"
  by (induction xs) (simp_all add: assms)

lemma updateFirst_distinct_hit:
  assumes "distinct (map g xs)" and "\<And>x. g (f x) = g x"
    and "y \<in> set (updateFirst (\<lambda>x. g x = v) f xs)" and "g y = v"
  shows "\<exists>x\<in>set xs. g x = v \<and> y = f x"
  using assms(1,3)
proof (induction xs)
  case Nil
  then show ?case by simp
next
  case (Cons x xs)
  show ?case
  proof (cases "g x = v")
    case True
    with Cons.prems(2) have "y = f x \<or> y \<in> set xs" by simp
    moreover have "y \<notin> set xs"
    proof
      assume "y \<in> set xs"
      then have "g y \<in> set (map g xs)" by simp
      with Cons.prems(1) True assms(4) show False by simp
    qed
    ultimately show ?thesis using True by simp
  next
    case False
    with Cons.prems(2) have "y = x \<or> y \<in> set (updateFirst (\<lambda>x. g x = v) f xs)" by simp
    with False assms(4) have "y \<in> set (updateFirst (\<lambda>x. g x = v) f xs)" by auto
    with Cons.IH Cons.prems(1) show ?thesis by simp
  qed
qed

lemma blogStep_ids: "map blog_id (blogStep e m bl b) = map blog_id bl"
  unfolding blogStep_def updateBlogStatus_def
  by (simp add: updateFirst_map_invariant split: fetch_status.splits)

lemma foldl_blogStep_ids: "map blog_id (foldl (blogStep e m) bl bs) = map blog_id bl"
  by (induction bs arbitrary: bl) (simp_all add: blogStep_ids)

lemma blogStep_other:
  assumes "blog_id b \<noteq> i"
  shows "filter (\<lambda>x. blog_id x = i) (blogStep e m bl b) = filter (\<lambda>x. blog_id x = i) bl"
  unfolding blogStep_def updateBlogStatus_def
  using assms by (simp add: updateFirst_filter_other split: fetch_status.splits)

lemma foldl_blogStep_other:
  assumes "\<forall>b\<in>set bs. blog_id b \<noteq> i"
  shows "filter (\<lambda>x. blog_id x = i) (foldl (blogStep e m) bl bs) = filter (\<lambda>x. blog_id x = i) bl"
  using assms by (induction bs arbitrary: bl) (simp_all add: blogStep_other)

lemma blogStep_hit:
  assumes "distinct (map blog_id bl)" and "\<not> skipsFetch b"
    and "y \<in> set (blogStep e m bl b)" and "blog_id y = blog_id b"
  shows "recorded (clock e (BlogSync (blog_id b))) (fetchStatus e m b) y"
proof -
  let ?f = "\<lambda>x. case fetchStatus e m b of
          FetchOk n t p s \<Rightarrow>
            x\<lparr> updatedAt := clock e (BlogSync (blog_id b)), status := Active,
               lastFetchAt := Some (clock e (BlogSync (blog_id b))), lastError := None,
               itemCount := n,
               title := (case orNull t of None \<Rightarrow> title x | Some v \<Rightarrow> v),
               photo := (case orNull p of None \<Rightarrow> photo x | Some v \<Rightarrow> Some v),
               siteUrl := (case orNull s of None \<Rightarrow> siteUrl x | Some v \<Rightarrow> Some v) \<rparr>
        | FetchFailed er \<Rightarrow> x\<lparr> updatedAt := clock e (BlogSync (blog_id b)), status := Error,
               lastError := Some er \<rparr>"
  have ids: "\<And>x. blog_id (?f x) = blog_id x"
    by (simp split: fetch_status.splits)
  from assms(2,3) have "y \<in> set (updateFirst (\<lambda>x. blog_id x = blog_id b) ?f bl)"
    by (simp add: blogStep_def updateBlogStatus_def)
  from updateFirst_distinct_hit [OF assms(1) ids this assms(4)]
  obtain x where "y = ?f x" by blast
  then show ?thesis
    by (simp add: recorded_def split: fetch_status.splits)
qed

lemma foldl_blogStep_recorded:
  assumes "distinct (map blog_id bl)" and "distinct (map blog_id bs)"
    and "k < length bs" and "\<not> skipsFetch (bs ! k)"
    and "y \<in> set (foldl (blogStep e m) bl bs)" and "blog_id y = blog_id (bs ! k)"
  shows "recorded (clock e (BlogSync (blog_id (bs ! k)))) (fetchStatus e m (bs ! k)) y"
proof -
  let ?bl1 = "foldl (blogStep e m) bl (take k bs)"
  let ?bl2 = "blogStep e m ?bl1 (bs ! k)"
  have split: "bs = take k bs @ bs ! k # drop (Suc k) bs"
    using assms(3) by (rule id_take_nth_drop)
  have final: "foldl (blogStep e m) bl bs = foldl (blogStep e m) ?bl2 (drop (Suc k) bs)"
    by (subst split) simp
  have d1: "distinct (map blog_id ?bl1)"
    using assms(1) by (simp add: foldl_blogStep_ids)
  have later: "\<forall>b\<in>set (drop (Suc k) bs). blog_id b \<noteq> blog_id (bs ! k)"
  proof
    fix b assume "b \<in> set (drop (Suc k) bs)"
    then obtain i where i: "i < length bs - Suc k" "b = bs ! (Suc k + i)"
      by (auto simp add: in_set_conv_nth)
    then have lt: "Suc k + i < length bs" and ne: "Suc k + i \<noteq> k" by simp_all
    have "(map blog_id bs ! (Suc k + i) = map blog_id bs ! k) = (Suc k + i = k)"
      using assms(2,3) lt by (intro nth_eq_iff_index_eq) simp_all
    with i assms(3) lt ne show "blog_id b \<noteq> blog_id (bs ! k)" by simp
  qed
  from assms(5,6) have "y \<in> set (filter (\<lambda>x. blog_id x = blog_id (bs ! k)) (foldl (blogStep e m) bl bs))"
    by simp
  then have "y \<in> set (filter (\<lambda>x. blog_id x = blog_id (bs ! k)) ?bl2)"
    unfolding final foldl_blogStep_other [OF later] .
  then have "y \<in> set ?bl2" by simp
  from blogStep_hit [OF d1 assms(4) this assms(6)] show ?thesis .
qed

lemma getBlogs_subset: "set (getBlogs bs) \<subseteq> set bs"
proof -
  have "set (getBlogs bs) \<subseteq> set (sort_key (\<lambda>b. \<not> pinned b) (sort_key title
       (filter (\<lambda>b. status b \<noteq> Deleted \<and> \<not> hidden b) bs)))"
    unfolding getBlogs_def by (rule set_take_subset)
  then show ?thesis by auto
qed

lemma length_filter_split:
  "length (filter P xs) = length (filter (\<lambda>x. P x \<and> Q x) xs) + length (filter (\<lambda>x. P x \<and> \<not> Q x) xs)"
  by (induction xs) simp_all

lemma fullSync_state:
  assumes "blogrollDb ap = Some db0"
  shows "\<exists>stats. fullSync e opts ap =
       Inr (ap\<lparr> blogrollDb := Some ((fst (syncBlogs e (maxItemsPerBlog opts)
                (getBlogs (blogrollBlogs (fst (afterSources e opts ap db0))))
                (fst (afterSources e opts ap db0),
                 \<lparr> blogsSuccess = 0, blogsFailed = 0, blogsSkipped = 0, newItems = 0 \<rparr>)))
              \<lparr> blogrollMeta := Some stats \<rparr>) \<rparr>, stats) \<and>
     blogs_failed stats = blogsFailed (snd (syncBlogs e (maxItemsPerBlog opts)
        (getBlogs (blogrollBlogs (fst (afterSources e opts ap db0))))
        (fst (afterSources e opts ap db0),
         \<lparr> blogsSuccess = 0, blogsFailed = 0, blogsSkipped = 0, newItems = 0 \<rparr>))) \<and>
     blogs_success stats = blogsSuccess (snd (syncBlogs e (maxItemsPerBlog opts)
        (getBlogs (blogrollBlogs (fst (afterSources e opts ap db0))))
        (fst (afterSources e opts ap db0),
         \<lparr> blogsSuccess = 0, blogsFailed = 0, blogsSkipped = 0, newItems = 0 \<rparr>))) \<and>
     blogs_total stats = length (getBlogs (blogrollBlogs (fst (afterSources e opts ap db0))))"
  using assms by (simp add: fullSync_def Let_def split_beta)

lemma runFullSync_state:
  assumes "\<not> isRunning p" and "blogrollDb (app p) = Some db0"
    and "db = fst (afterSources e opts (app p) db0)"
    and "bs = getBlogs (blogrollBlogs db)"
    and "m = maxItemsPerBlog opts"
  shows "\<exists>stats. fst (runFullSync e opts p) = RunOk stats \<and>
     blogs_failed stats = length (filter (\<lambda>b. \<not> skipsFetch b \<and> isl (fetchFeed e (feedUrl b))) bs) \<and>
     blogs_success stats = length (filter (\<lambda>b. \<not> skipsFetch b \<and> \<not> isl (fetchFeed e (feedUrl b))) bs) \<and>
     blogs_total stats = length bs \<and>
     blogrollDb (app (snd (runFullSync e opts p))) =
       Some (db\<lparr> blogrollItems := foldl (itemStep e m) (blogrollItems db) bs,
                 blogrollBlogs := foldl (blogStep e m) (blogrollBlogs db) bs,
                 blogrollMeta := Some stats \<rparr>)"
proof -
  let ?t0 = "\<lparr> blogsSuccess = 0, blogsFailed = 0, blogsSkipped = 0, newItems = 0 \<rparr>"
  from fullSync_state [OF assms(2), of e opts]
  obtain stats where full: "fullSync e opts (app p) =
       Inr ((app p)\<lparr> blogrollDb := Some ((fst (syncBlogs e m bs (db, ?t0)))
              \<lparr> blogrollMeta := Some stats \<rparr>) \<rparr>, stats)"
    and failed: "blogs_failed stats = blogsFailed (snd (syncBlogs e m bs (db, ?t0)))"
    and ok: "blogs_success stats = blogsSuccess (snd (syncBlogs e m bs (db, ?t0)))"
    and total: "blogs_total stats = length bs"
    unfolding assms(3,4,5) by blast
  have run: "runFullSync e opts p =
      (RunOk stats, p\<lparr> app := (app p)\<lparr> blogrollDb := Some ((fst (syncBlogs e m bs (db, ?t0)))
              \<lparr> blogrollMeta := Some stats \<rparr>) \<rparr>, isRunning := False \<rparr>)"
    using assms(1) full by (simp add: runFullSync_started)
  have tally: "blogsFailed (snd (syncBlogs e m bs (db, ?t0))) =
      length (filter (\<lambda>b. \<not> skipsFetch b \<and> isl (fetchFeed e (feedUrl b))) bs)"
    "blogsSuccess (snd (syncBlogs e m bs (db, ?t0))) =
      length (filter (\<lambda>b. \<not> skipsFetch b \<and> \<not> isl (fetchFeed e (feedUrl b))) bs)"
    using syncBlogs_tally [of e m bs db ?t0] by simp_all
  have "fst (runFullSync e opts p) = RunOk stats" using run by simp
  moreover have "blogrollDb (app (snd (runFullSync e opts p))) =
       Some (db\<lparr> blogrollItems := foldl (itemStep e m) (blogrollItems db) bs,
                 blogrollBlogs := foldl (blogStep e m) (blogrollBlogs db) bs,
                 blogrollMeta := Some stats \<rparr>)"
    unfolding run syncBlogs_state by simp
  ultimately show ?thesis using failed ok total tally by simp
qed

text \<open>
  C3. A run over the blogs \<open>bs\<close> in which the fetch of exactly one fetched blog, \<open>bs ! k\<close>,
  fails; \<open>final\<close> is the database at the end of the run, \<open>e'\<close> an environment in which that
  fetch returns anything else and \<open>final'\<close> the database at the end of the run with \<open>e'\<close>.
  The result of that blog in the loop is \<open>{success: false, error}\<close>; every other blog has
  the result it has with \<open>e'\<close>, a success when it is fetched. \<open>runFullSync\<close> returns
  \<open>success: true\<close> with \<open>blogs.failed = 1\<close>, every other fetched blog counted in
  \<open>blogs.success\<close>, and stores these statistics. At the end of the run every blog has its
  document; the documents with the failing blog's \<open>_id\<close> have the status \<open>error\<close> and the
  error as \<open>lastError\<close>; the documents with any other \<open>_id\<close> are the same as at the end of
  the run with \<open>e'\<close>, those of the other fetched blogs with the status \<open>active\<close> and no
  \<open>lastError\<close>; the failing blog has the items it had before the loop, and the items of
  every other fetched blog's feed are stored.
\<close>

theorem runFullSync_isolates_failed_fetch:
  assumes "\<not> isRunning p" and "blogrollDb (app p) = Some db0"
    and "distinct (map blog_id (blogrollBlogs db0))"
    and "db = fst (afterSources e opts (app p) db0)"
    and "bs = getBlogs (blogrollBlogs db)"
    and "m = maxItemsPerBlog opts"
    and "k < length bs" and "\<not> skipsFetch (bs ! k)"
    and "fetchFeed e (feedUrl (bs ! k)) = Inl err"
    and "\<forall>j<length bs. j \<noteq> k \<and> \<not> skipsFetch (bs ! j) \<longrightarrow>
           (\<exists>feed. fetchFeed e (feedUrl (bs ! j)) = Inr feed)"
    and "e' = e\<lparr> fetchFeed := (fetchFeed e)(feedUrl (bs ! k) := other) \<rparr>"
    and "final = the (blogrollDb (app (snd (runFullSync e opts p))))"
    and "final' = the (blogrollDb (app (snd (runFullSync e' opts p))))"
  shows "blogResult e m bs db k = Some (SyncFailed err) \<and>
     (\<forall>j<length bs. j \<noteq> k \<longrightarrow> blogResult e m bs db j = blogResult e' m bs db j) \<and>
     (\<forall>j<length bs. j \<noteq> k \<and> \<not> skipsFetch (bs ! j) \<longrightarrow>
        (\<exists>a n. blogResult e m bs db j = Some (Synced a n))) \<and>
     (\<exists>stats. fst (runFullSync e opts p) = RunOk stats \<and> blogs_failed stats = 1 \<and>
        blogs_success stats + 1 = length (filter (\<lambda>b. \<not> skipsFetch b) bs) \<and>
        blogs_total stats = length bs \<and> blogrollMeta final = Some stats) \<and>
     map blog_id (blogrollBlogs final) = map blog_id (blogrollBlogs db) \<and>
     set bs \<subseteq> set (blogrollBlogs db) \<and>
     (\<forall>x\<in>set (blogrollBlogs final). blog_id x = blog_id (bs ! k) \<longrightarrow>
        status x = Error \<and> lastError x = Some err) \<and>
     filter (\<lambda>x. blog_id x \<noteq> blog_id (bs ! k)) (blogrollBlogs final) =
       filter (\<lambda>x. blog_id x \<noteq> blog_id (bs ! k)) (blogrollBlogs final') \<and>
     (\<forall>j<length bs. j \<noteq> k \<and> \<not> skipsFetch (bs ! j) \<longrightarrow>
        (\<forall>x\<in>set (blogrollBlogs final). blog_id x = blog_id (bs ! j) \<longrightarrow>
           status x = Active \<and> lastError x = None)) \<and>
     keysOf (blog_id (bs ! k)) (blogrollItems final) = keysOf (blog_id (bs ! k)) (blogrollItems db) \<and>
     (\<forall>j<length bs. j \<noteq> k \<and> \<not> skipsFetch (bs ! j) \<longrightarrow>
        dataKey ` set (fetchedItems e m (bs ! j)) \<subseteq> set (map itemKey (blogrollItems final)))"
proof -
  let ?u = "feedUrl (bs ! k)"
  have dist_db: "distinct (map blog_id (blogrollBlogs db))"
    unfolding assms(4) using assms(3) by (rule afterSources_distinct_ids)
  have dist: "distinct (map blog_id bs)"
    unfolding assms(5) using dist_db by (rule getBlogs_distinct_ids)
  have clock': "clock e' = clock e" and feed': "\<And>v. v \<noteq> ?u \<Longrightarrow> fetchFeed e' v = fetchFeed e v"
    by (simp_all add: assms(11))
  have iso: "\<And>env i. i < length bs \<Longrightarrow> blogResult env m bs db i =
     (if skipsFetch (bs ! i) then None
      else Some (snd (syncBlogItems env (clock env (BlogSync (blog_id (bs ! i)))) m db (bs ! i))))"
    using dist by (rule blogResult_isolated)
  have other_url: "\<And>j. j < length bs \<Longrightarrow> j \<noteq> k \<Longrightarrow> \<not> skipsFetch (bs ! j) \<Longrightarrow> feedUrl (bs ! j) \<noteq> ?u"
    using assms(9,10) by force
  \<comment> \<open>the failing blog\<close>
  have r_k: "blogResult e m bs db k = Some (SyncFailed err)"
    using iso [OF assms(7), of e] assms(8) by (simp add: syncBlogItems_failed [OF assms(9)])
  \<comment> \<open>the other blogs\<close>
  have r_other: "\<forall>j<length bs. j \<noteq> k \<longrightarrow> blogResult e m bs db j = blogResult e' m bs db j"
  proof (intro allI impI)
    fix j assume j: "j < length bs" and jk: "j \<noteq> k"
    show "blogResult e m bs db j = blogResult e' m bs db j"
    proof (cases "skipsFetch (bs ! j)")
      case True
      then show ?thesis using iso [OF j, of e] iso [OF j, of e'] by simp
    next
      case False
      from other_url [OF j jk False]
      have "syncBlogItems e' (clock e (BlogSync (blog_id (bs ! j)))) m db (bs ! j)
          = syncBlogItems e (clock e (BlogSync (blog_id (bs ! j)))) m db (bs ! j)"
        unfolding assms(11) by (rule syncBlogItems_other_url(1))
      with False show ?thesis using iso [OF j, of e] iso [OF j, of e'] by (simp add: clock')
    qed
  qed
  have r_ok: "\<forall>j<length bs. j \<noteq> k \<and> \<not> skipsFetch (bs ! j) \<longrightarrow>
        (\<exists>a n. blogResult e m bs db j = Some (Synced a n))"
  proof (intro allI impI)
    fix j assume j: "j < length bs" and h: "j \<noteq> k \<and> \<not> skipsFetch (bs ! j)"
    with assms(10) obtain feed where "fetchFeed e (feedUrl (bs ! j)) = Inr feed" by blast
    then show "\<exists>a n. blogResult e m bs db j = Some (Synced a n)"
      using iso [OF j, of e] h by (simp add: syncBlogItems_eq)
  qed
  \<comment> \<open>the run\<close>
  have one: "length (filter (\<lambda>b. \<not> skipsFetch b \<and> isl (fetchFeed e (feedUrl b))) bs) = 1"
  proof (rule filter_single [OF assms(7)])
    show "\<not> skipsFetch (bs ! k) \<and> isl (fetchFeed e (feedUrl (bs ! k)))"
      using assms(8,9) by simp
    show "\<forall>j<length bs. j \<noteq> k \<longrightarrow> \<not> (\<not> skipsFetch (bs ! j) \<and> isl (fetchFeed e (feedUrl (bs ! j))))"
      using assms(10) by force
  qed
  from runFullSync_state [OF assms(1,2,4,5,6)]
  obtain stats where run: "fst (runFullSync e opts p) = RunOk stats"
    and failed: "blogs_failed stats = length (filter (\<lambda>b. \<not> skipsFetch b \<and> isl (fetchFeed e (feedUrl b))) bs)"
    and ok: "blogs_success stats = length (filter (\<lambda>b. \<not> skipsFetch b \<and> \<not> isl (fetchFeed e (feedUrl b))) bs)"
    and total: "blogs_total stats = length bs"
    and fin: "final = db\<lparr> blogrollItems := foldl (itemStep e m) (blogrollItems db) bs,
                 blogrollBlogs := foldl (blogStep e m) (blogrollBlogs db) bs,
                 blogrollMeta := Some stats \<rparr>"
    unfolding assms(12) by force
  have db': "db = fst (afterSources e' opts (app p) db0)"
    unfolding assms(11) assms(4) by (simp add: afterSources_fetchFeed)
  from runFullSync_state [OF assms(1,2) db' assms(5,6)]
  obtain stats' where fin': "final' = db\<lparr> blogrollItems := foldl (itemStep e' m) (blogrollItems db) bs,
                 blogrollBlogs := foldl (blogStep e' m) (blogrollBlogs db) bs,
                 blogrollMeta := Some stats' \<rparr>"
    unfolding assms(13) by force
  have blogs3: "blogrollBlogs final = foldl (blogStep e m) (blogrollBlogs db) bs"
    and items3: "blogrollItems final = foldl (itemStep e m) (blogrollItems db) bs"
    and meta3: "blogrollMeta final = Some stats"
    unfolding fin by simp_all
  have blogs3': "blogrollBlogs final' = foldl (blogStep e' m) (blogrollBlogs db) bs"
    unfolding fin' by simp
  have "length (filter (\<lambda>b. \<not> skipsFetch b) bs) =
      length (filter (\<lambda>b. \<not> skipsFetch b \<and> isl (fetchFeed e (feedUrl b))) bs) +
      length (filter (\<lambda>b. \<not> skipsFetch b \<and> \<not> isl (fetchFeed e (feedUrl b))) bs)"
    by (rule length_filter_split)
  with one ok have success: "blogs_success stats + 1 = length (filter (\<lambda>b. \<not> skipsFetch b) bs)"
    by simp
  from run failed one total success meta3
  have c_run: "\<exists>stats. fst (runFullSync e opts p) = RunOk stats \<and> blogs_failed stats = 1 \<and>
        blogs_success stats + 1 = length (filter (\<lambda>b. \<not> skipsFetch b) bs) \<and>
        blogs_total stats = length bs \<and> blogrollMeta final = Some stats"
    by simp
  \<comment> \<open>the blog documents at the end of the run\<close>
  have c_ids: "map blog_id (blogrollBlogs final) = map blog_id (blogrollBlogs db)"
    unfolding blogs3 by (rule foldl_blogStep_ids)
  have c_sub: "set bs \<subseteq> set (blogrollBlogs db)"
    unfolding assms(5) by (rule getBlogs_subset)
  have st_k: "fetchStatus e m (bs ! k) = FetchFailed err"
    using assms(9) by (simp add: fetchStatus_def)
  have c_own: "\<forall>x\<in>set (blogrollBlogs final). blog_id x = blog_id (bs ! k) \<longrightarrow>
        status x = Error \<and> lastError x = Some err"
  proof (intro ballI impI)
    fix x assume x: "x \<in> set (blogrollBlogs final)" and id: "blog_id x = blog_id (bs ! k)"
    from x have "x \<in> set (foldl (blogStep e m) (blogrollBlogs db) bs)" unfolding blogs3 .
    from foldl_blogStep_recorded [OF dist_db dist assms(7,8) this id]
    show "status x = Error \<and> lastError x = Some err"
      unfolding st_k by (simp add: recorded_def)
  qed
  have status': "\<forall>b\<in>set bs. blog_id b \<noteq> blog_id (bs ! k) \<and> \<not> skipsFetch b
      \<longrightarrow> fetchStatus e' m b = fetchStatus e m b"
  proof (intro ballI impI)
    fix b assume b: "b \<in> set bs" and h: "blog_id b \<noteq> blog_id (bs ! k) \<and> \<not> skipsFetch b"
    from b obtain j where j: "j < length bs" and bj: "bs ! j = b" by (auto simp: in_set_conv_nth)
    with h have "j \<noteq> k" by auto
    from other_url [OF j this] h bj have "feedUrl b \<noteq> ?u" by simp
    then show "fetchStatus e' m b = fetchStatus e m b"
      unfolding assms(11) by (rule syncBlogItems_other_url(2))
  qed
  have "agreeExcept (blog_id (bs ! k)) (foldl (blogStep e m) (blogrollBlogs db) bs)
      (foldl (blogStep e' m) (blogrollBlogs db) bs)"
    by (rule foldl_blogStep_agree [OF agreeExcept_refl clock' status'])
  then have c_docs: "filter (\<lambda>x. blog_id x \<noteq> blog_id (bs ! k)) (blogrollBlogs final) =
      filter (\<lambda>x. blog_id x \<noteq> blog_id (bs ! k)) (blogrollBlogs final')"
    unfolding blogs3 blogs3' by (rule agreeExcept_filter)
  have c_others: "\<forall>j<length bs. j \<noteq> k \<and> \<not> skipsFetch (bs ! j) \<longrightarrow>
        (\<forall>x\<in>set (blogrollBlogs final). blog_id x = blog_id (bs ! j) \<longrightarrow>
           status x = Active \<and> lastError x = None)"
  proof (intro allI impI ballI)
    fix j x assume j: "j < length bs" and h: "j \<noteq> k \<and> \<not> skipsFetch (bs ! j)"
      and x: "x \<in> set (blogrollBlogs final)" and id: "blog_id x = blog_id (bs ! j)"
    from h have ns: "\<not> skipsFetch (bs ! j)" by simp
    from assms(10) j h obtain feed where "fetchFeed e (feedUrl (bs ! j)) = Inr feed" by blast
    then obtain n t ph s where st: "fetchStatus e m (bs ! j) = FetchOk n t ph s"
      by (simp add: fetchStatus_def)
    from x have "x \<in> set (foldl (blogStep e m) (blogrollBlogs db) bs)" unfolding blogs3 .
    from foldl_blogStep_recorded [OF dist_db dist j ns this id]
    show "status x = Active \<and> lastError x = None"
      unfolding st by (simp add: recorded_def)
  qed
  \<comment> \<open>the items at the end of the run\<close>
  have "\<forall>b\<in>set bs. blog_id b = blog_id (bs ! k) \<longrightarrow> skipsFetch b \<or> fetchedItems e m b = []"
  proof (intro ballI impI)
    fix b assume b: "b \<in> set bs" and id: "blog_id b = blog_id (bs ! k)"
    from b obtain j where j: "j < length bs" and bj: "bs ! j = b" by (auto simp: in_set_conv_nth)
    have "(map blog_id bs ! j = map blog_id bs ! k) = (j = k)"
      using dist j assms(7) by (intro nth_eq_iff_index_eq) simp_all
    with id bj j assms(7) have "b = bs ! k" by auto
    with assms(9) show "skipsFetch b \<or> fetchedItems e m b = []"
      by (simp add: fetchedItems_def)
  qed
  then have c_items: "keysOf (blog_id (bs ! k)) (blogrollItems final)
      = keysOf (blog_id (bs ! k)) (blogrollItems db)"
    unfolding items3 by (rule keysOf_foldl_itemStep)
  have c_stored: "\<forall>j<length bs. j \<noteq> k \<and> \<not> skipsFetch (bs ! j) \<longrightarrow>
        dataKey ` set (fetchedItems e m (bs ! j)) \<subseteq> set (map itemKey (blogrollItems final))"
  proof (intro allI impI)
    fix j assume j: "j < length bs" and h: "j \<noteq> k \<and> \<not> skipsFetch (bs ! j)"
    from j have "bs ! j \<in> set bs" by simp
    with h show "dataKey ` set (fetchedItems e m (bs ! j)) \<subseteq> set (map itemKey (blogrollItems final))"
      unfolding items3 foldl_itemStep_keys by fastforce
  qed
  from r_k r_other r_ok c_run c_ids c_sub c_own c_docs c_others c_items c_stored
  show ?thesis by blast
qed

text \<open>A run over two blogs: the feed of the first is fetched, the fetch of the second
  fails.\<close>

theorem runFullSync_isolates_failed_fetch_witness:
  "blogResult exampleEnv 50
      [exampleBlog 1 ''https://ok.example/feed'' None Active,
       exampleBlog 2 ''https://bad.example/feed'' None Active]
      (exampleDb [exampleBlog 1 ''https://ok.example/feed'' None Active,
                  exampleBlog 2 ''https://bad.example/feed'' None Active]) 1
     = Some (SyncFailed ''HTTP 404'') \<and>
   (\<exists>stats. fst (runFullSync exampleEnv exampleOptions
        \<lparr> isRunning = False,
          app = exampleApp (Some (exampleDb
            [exampleBlog 1 ''https://ok.example/feed'' None Active,
             exampleBlog 2 ''https://bad.example/feed'' None Active])) \<rparr>) = RunOk stats \<and>
      blogs_failed stats = 1 \<and> blogs_success stats = 1 \<and> blogs_total stats = 2) \<and>
   map (\<lambda>x. (blog_id x, status x, lastError x))
     (blogrollBlogs (the (blogrollDb (app (snd (runFullSync exampleEnv exampleOptions
        \<lparr> isRunning = False,
          app = exampleApp (Some (exampleDb
            [exampleBlog 1 ''https://ok.example/feed'' None Active,
             exampleBlog 2 ''https://bad.example/feed'' None Active])) \<rparr>))))))
     = [(1, Active, None), (2, Error, Some ''HTTP 404'')] \<and>
   (1, ''https://ok.example/feed:'') \<in>
     set (map itemKey
       (blogrollItems (the (blogrollDb (app (snd (runFullSync exampleEnv exampleOptions
        \<lparr> isRunning = False,
          app = exampleApp (Some (exampleDb
            [exampleBlog 1 ''https://ok.example/feed'' None Active,
             exampleBlog 2 ''https://bad.example/feed'' None Active])) \<rparr>)))))))"
proof -
  let ?b1 = "exampleBlog 1 ''https://ok.example/feed'' None Active"
  let ?b2 = "exampleBlog 2 ''https://bad.example/feed'' None Active"
  let ?db0 = "exampleDb [?b1, ?b2]"
  let ?p = "\<lparr> isRunning = False, app = exampleApp (Some ?db0) \<rparr>"
  let ?e' = "exampleEnv\<lparr> fetchFeed := (fetchFeed exampleEnv)
            (''https://bad.example/feed'' := Inr (exampleFeed [])) \<rparr>"
  let ?final = "the (blogrollDb (app (snd (runFullSync exampleEnv exampleOptions ?p))))"
  let ?final' = "the (blogrollDb (app (snd (runFullSync ?e' exampleOptions ?p))))"
  have a1: "\<not> isRunning ?p" by simp
  have a2: "blogrollDb (app ?p) = Some ?db0" by (simp add: exampleApp_def)
  have a3: "distinct (map blog_id (blogrollBlogs ?db0))"
    by (simp add: exampleDb_def exampleBlog_def)
  have a4: "?db0 = fst (afterSources exampleEnv exampleOptions (app ?p) ?db0)"
    by (simp add: afterSources_def enabledSources_def getSources_def deleteOldItems_def
        exampleDb_def)
  have a5: "[?b1, ?b2] = getBlogs (blogrollBlogs ?db0)"
    by (simp add: getBlogs_def exampleDb_def exampleBlog_def)
  have a6: "50 = maxItemsPerBlog exampleOptions" by (simp add: exampleOptions_def)
  have a7: "1 < length [?b1, ?b2]" by simp
  have a8: "\<not> skipsFetch ([?b1, ?b2] ! 1)" by (simp add: skipsFetch_def exampleBlog_def)
  have a9: "fetchFeed exampleEnv (feedUrl ([?b1, ?b2] ! 1)) = Inl ''HTTP 404''"
    by (simp add: exampleEnv_def exampleBlog_def)
  have a10: "\<forall>j<length [?b1, ?b2]. j \<noteq> 1 \<and> \<not> skipsFetch ([?b1, ?b2] ! j) \<longrightarrow>
           (\<exists>feed. fetchFeed exampleEnv (feedUrl ([?b1, ?b2] ! j)) = Inr feed)"
    by (simp add: less_Suc_eq exampleEnv_def exampleBlog_def)
  have a11: "?e' = exampleEnv\<lparr> fetchFeed := (fetchFeed exampleEnv)
      (feedUrl ([?b1, ?b2] ! 1) := Inr (exampleFeed [])) \<rparr>"
    by (simp add: exampleBlog_def)
  have a12: "?final = the (blogrollDb (app (snd (runFullSync exampleEnv exampleOptions ?p))))"
    by (rule refl)
  have a13: "?final' = the (blogrollDb (app (snd (runFullSync ?e' exampleOptions ?p))))"
    by (rule refl)
  note inst = runFullSync_isolates_failed_fetch [OF a1 a2 a3 a4 a5 a6 a7 a8 a9 a10 a11 a12 a13]
  have ns: "\<not> skipsFetch ?b1" "\<not> skipsFetch ?b2" by (simp_all add: skipsFetch_def exampleBlog_def)
  from inst have r1: "blogResult exampleEnv 50 [?b1, ?b2] ?db0 1 = Some (SyncFailed ''HTTP 404'')"
    by blast
  from inst have "\<exists>stats. fst (runFullSync exampleEnv exampleOptions ?p) = RunOk stats \<and>
      blogs_failed stats = 1 \<and>
      blogs_success stats + 1 = length (filter (\<lambda>b. \<not> skipsFetch b) [?b1, ?b2]) \<and>
      blogs_total stats = length [?b1, ?b2] \<and> blogrollMeta ?final = Some stats"
    by blast
  then have run: "\<exists>stats. fst (runFullSync exampleEnv exampleOptions ?p) = RunOk stats \<and>
      blogs_failed stats = 1 \<and> blogs_success stats = 1 \<and> blogs_total stats = 2"
    using ns by auto
  from inst have "map blog_id (blogrollBlogs ?final) = map blog_id (blogrollBlogs ?db0)"
    by blast
  then have ids: "map blog_id (blogrollBlogs ?final) = [1, 2]"
    by (simp add: exampleDb_def exampleBlog_def)
  then obtain x1 x2 where fin: "blogrollBlogs ?final = [x1, x2]" and i1: "blog_id x1 = 1"
    and i2: "blog_id x2 = 2"
    by (auto simp add: map_eq_Cons_conv)
  from inst have "\<forall>x\<in>set (blogrollBlogs ?final). blog_id x = blog_id ([?b1, ?b2] ! 1) \<longrightarrow>
        status x = Error \<and> lastError x = Some ''HTTP 404''"
    by blast
  with fin i2 have s2: "status x2 = Error \<and> lastError x2 = Some ''HTTP 404''"
    by (simp add: exampleBlog_def)
  from inst have "\<forall>j<length [?b1, ?b2]. j \<noteq> 1 \<and> \<not> skipsFetch ([?b1, ?b2] ! j) \<longrightarrow>
        (\<forall>x\<in>set (blogrollBlogs ?final). blog_id x = blog_id ([?b1, ?b2] ! j) \<longrightarrow>
           status x = Active \<and> lastError x = None)"
    by blast
  then have "\<forall>x\<in>set (blogrollBlogs ?final). blog_id x = blog_id ?b1 \<longrightarrow>
           status x = Active \<and> lastError x = None"
    using ns by force
  with fin i1 have s1: "status x1 = Active \<and> lastError x1 = None"
    by (simp add: exampleBlog_def)
  have docs: "map (\<lambda>x. (blog_id x, status x, lastError x)) (blogrollBlogs ?final)
      = [(1, Active, None), (2, Error, Some ''HTTP 404'')]"
    unfolding fin using i1 i2 s1 s2 by simp
  from inst have "\<forall>j<length [?b1, ?b2]. j \<noteq> 1 \<and> \<not> skipsFetch ([?b1, ?b2] ! j) \<longrightarrow>
        dataKey ` set (fetchedItems exampleEnv 50 ([?b1, ?b2] ! j))
          \<subseteq> set (map itemKey (blogrollItems ?final))"
    by blast
  then have "dataKey ` set (fetchedItems exampleEnv 50 ?b1) \<subseteq> set (map itemKey (blogrollItems ?final))"
    using ns by force
  moreover have "(1, ''https://ok.example/feed:'') \<in> dataKey ` set (fetchedItems exampleEnv 50 ?b1)"
    by (simp add: fetchedItems_def exampleEnv_def exampleBlog_def exampleFeed_def
        exampleEntry_def normalizeItem_def generateUid_def dataKey_def)
  ultimately have stored: "(1, ''https://ok.example/feed:'') \<in> set (map itemKey (blogrollItems ?final))"
    by blast
  from r1 run docs stored show ?thesis by blast
qed








lemma groupPush_set:
  "set (concat (map snd (groupPush g k v))) = insert v (set (concat (map snd g)))"
  by (induction g k v rule: groupPush.induct) auto












end
